theory Spec2Isabelle
  imports Main "HOL-Library.Char_ord"
begin

section \<open>Characters and character classes of \<^verbatim>\<open>mpcalc.py\<close>\<close>

text \<open>
  A Python \<^verbatim>\<open>str\<close> is modelled as a \<^typ>\<open>string\<close>: a list of characters with code
  points 0 to 255. The character classes below are the ones the regular expressions of
  the source use: the explicit ranges \<^verbatim>\<open>a-zA-Z\<close> and \<^verbatim>\<open>0-9\<close>, \<^verbatim>\<open>\d\<close> under
  \<^verbatim>\<open>re.ASCII\<close> (the same as \<^verbatim>\<open>0-9\<close>), and \<^verbatim>\<open>\s\<close> without \<^verbatim>\<open>re.ASCII\<close>
  (Python's Unicode white space, of which the code points below 256 are
  9 to 13, 28 to 32, 133 and 160).
\<close>

definition backslash :: char where
  "backslash = CHR 0x5C"

definition quote :: char where
  "quote = CHR 0x27"

definition is_letter :: "char \<Rightarrow> bool" where
  "is_letter c \<longleftrightarrow> (CHR ''a'' \<le> c \<and> c \<le> CHR ''z'') \<or> (CHR ''A'' \<le> c \<and> c \<le> CHR ''Z'')"

definition is_digit :: "char \<Rightarrow> bool" where
  "is_digit c \<longleftrightarrow> CHR ''0'' \<le> c \<and> c \<le> CHR ''9''"

definition is_space :: "char \<Rightarrow> bool" where
  "is_space c \<longleftrightarrow> (CHR 0x09 \<le> c \<and> c \<le> CHR 0x0D) \<or> (CHR 0x1C \<le> c \<and> c \<le> CHR 0x20)
     \<or> c = CHR 0x85 \<or> c = CHR 0xA0"

text \<open>
  \<^verbatim>\<open>allowed_characters = r"a-zA-Z0-9\s_:=" + re.escape(r"\().+-/*^&|,[]")\<close>:
  the members of the character class that \<^verbatim>\<open>disallowed_characters\<close> negates.
\<close>

definition allowed_characters :: "char \<Rightarrow> bool" where
  "allowed_characters c \<longleftrightarrow> is_letter c \<or> is_digit c \<or> is_space c \<or> c \<in> set ''_:=''
     \<or> c \<in> set (backslash # ''().+-/*^&|,[]'')"

text \<open>\<^verbatim>\<open>cannot_start_after = r"a-zA-Z\d_" + re.escape(r"\.")\<close>\<close>

definition cannot_start_after :: "char \<Rightarrow> bool" where
  "cannot_start_after c \<longleftrightarrow> is_letter c \<or> is_digit c \<or> c = CHR ''_''
     \<or> c \<in> set (backslash # ''.'')"

text \<open>The classes \<^verbatim>\<open>[a-zA-Z_]\<close>, \<^verbatim>\<open>[a-zA-Z0-9]\<close>, \<^verbatim>\<open>[\d_]\<close> and \<^verbatim>\<open>[a-zA-Z\d\._]\<close>.\<close>

definition name_first :: "char \<Rightarrow> bool" where
  "name_first c \<longleftrightarrow> is_letter c \<or> c = CHR ''_''"

definition name_rest :: "char \<Rightarrow> bool" where
  "name_rest c \<longleftrightarrow> is_letter c \<or> is_digit c"

definition digit_or_underscore :: "char \<Rightarrow> bool" where
  "digit_or_underscore c \<longleftrightarrow> is_digit c \<or> c = CHR ''_''"

definition cannot_follow_number :: "char \<Rightarrow> bool" where
  "cannot_follow_number c \<longleftrightarrow> is_letter c \<or> is_digit c \<or> c = CHR ''.'' \<or> c = CHR ''_''"


section \<open>The regular expressions, as a backtracking matcher\<close>

text \<open>
  The fragment of Python's \<^verbatim>\<open>re\<close> syntax that the source uses: a character class,
  concatenation, alternation \<^verbatim>\<open>|\<close>, the greedy option \<^verbatim>\<open>?\<close>, the greedy star of a
  character class, and the negative look-behind \<^verbatim>\<open>(?<![...])\<close> and look-ahead
  \<^verbatim>\<open>(?![...])\<close> of one character class.
\<close>

datatype rx =
    Cls "char \<Rightarrow> bool"
  | Seq rx rx
  | Alt rx rx
  | Opt rx
  | Star "char \<Rightarrow> bool"
  | NotBehind "char \<Rightarrow> bool"
  | NotAhead "char \<Rightarrow> bool"

text \<open>
  A position in the subject string is a pair: the text before the position, last
  character first, and the text from the position on. \<open>ends r p\<close> lists the
  positions at which a match of \<open>r\<close> that starts at \<open>p\<close> can end, in the order in
  which a backtracking matcher tries them: the greedy choice first. Python's match is
  the first one.
\<close>

type_synonym pos = "string \<times> string"

fun ends :: "rx \<Rightarrow> pos \<Rightarrow> pos list" where
  "ends (Cls P) (b, []) = []"
| "ends (Cls P) (b, c # cs) = (if P c then [(c # b, cs)] else [])"
| "ends (Seq r1 r2) p = concat (map (ends r2) (ends r1 p))"
| "ends (Alt r1 r2) p = ends r1 p @ ends r2 p"
| "ends (Opt r) p = ends r p @ [p]"
| "ends (Star P) (b, []) = [(b, [])]"
| "ends (Star P) (b, c # cs) = (if P c then ends (Star P) (c # b, cs) else []) @ [(b, c # cs)]"
| "ends (NotBehind P) ([], a) = [([], a)]"
| "ends (NotBehind P) (c # b, a) = (if P c then [] else [(c # b, a)])"
| "ends (NotAhead P) (b, []) = [(b, [])]"
| "ends (NotAhead P) (b, c # cs) = (if P c then [] else [(b, c # cs)])"

text \<open>
  \<open>match_at r b a\<close>: the text of the match of \<open>r\<close> that starts where \<open>b\<close> lies before
  and \<open>a\<close> after, or \<open>None\<close>. The text is the part of \<open>a\<close> up to the end position.
\<close>

definition match_at :: "rx \<Rightarrow> string \<Rightarrow> string \<Rightarrow> string option" where
  "match_at r b a = (case ends r (b, a) of [] \<Rightarrow> None
     | e # _ \<Rightarrow> Some (take (length a - length (snd e)) a))"

text \<open>\<^verbatim>\<open>pattern.search(string)\<close>: the leftmost match, \<^verbatim>\<open>match[0]\<close> of it.\<close>

fun search_from :: "rx \<Rightarrow> string \<Rightarrow> string \<Rightarrow> string option" where
  "search_from r b [] = match_at r b []"
| "search_from r b (c # cs) = (case match_at r b (c # cs) of Some m \<Rightarrow> Some m
     | None \<Rightarrow> search_from r (c # b) cs)"

definition re_search :: "rx \<Rightarrow> string \<Rightarrow> string option" where
  "re_search r s = search_from r [] s"

text \<open>
  \<^verbatim>\<open>re.sub(pattern, repl, string)\<close> walks the string from the left. Where the pattern
  matches, the matched text is handed to \<open>repl\<close> and the walk goes on behind the match;
  where it does not, the character is copied. \<open>segments\<close> is that walk: \<open>Hit m\<close> for a
  match with text \<open>m\<close>, \<open>Gap c\<close> for a copied character. None of the patterns of the
  source matches the empty string; the walk steps over an empty match as over a
  position without a match.
\<close>

datatype seg = Gap char | Hit string

function segments :: "rx \<Rightarrow> string \<Rightarrow> string \<Rightarrow> seg list" where
  "segments r b [] = []"
| "segments r b (c # cs) = (case match_at r b (c # cs) of
       None \<Rightarrow> Gap c # segments r (c # b) cs
     | Some m \<Rightarrow> (if m = [] then Gap c # segments r (c # b) cs
         else Hit m # segments r (rev m @ b) (drop (length m) (c # cs))))"
  by pat_completeness auto
termination
  by (relation "measure (\<lambda>(r, b, a). length a)") auto

definition finditer :: "rx \<Rightarrow> string \<Rightarrow> seg list" where
  "finditer r s = segments r [] s"


fun seg_sub :: "(string \<Rightarrow> string) \<Rightarrow> seg \<Rightarrow> string" where
  "seg_sub repl (Gap c) = [c]"
| "seg_sub repl (Hit m) = repl m"

definition re_sub :: "rx \<Rightarrow> (string \<Rightarrow> string) \<Rightarrow> string \<Rightarrow> string" where
  "re_sub r repl s = concat (map (seg_sub repl) (finditer r s))"


subsection \<open>The patterns of the source\<close>

text \<open>A literal character of a pattern.\<close>

definition Chr :: "char \<Rightarrow> rx" where
  "Chr c = Cls (\<lambda>x. x = c)"

text \<open>\<^verbatim>\<open>disallowed_characters = re.compile(f"[^{allowed_characters}]")\<close>\<close>

definition disallowed_characters :: rx where
  "disallowed_characters = Cls (\<lambda>c. \<not> allowed_characters c)"

text \<open>
  \<^verbatim>\<open>name_pattern = re.compile(rf"(?<![{cannot_start_after}])([a-zA-Z_][a-zA-Z0-9]*)", re.ASCII)\<close>.
  Group 1 is all that the pattern consumes, so \<^verbatim>\<open>\1\<close> is the text of the match.
\<close>

definition name_pattern :: rx where
  "name_pattern = Seq (NotBehind cannot_start_after) (Seq (Cls name_first) (Star name_rest))"

text \<open>\<^verbatim>\<open>int_pattern = r"\d[\d_]*(?<!_)"\<close>\<close>

definition int_pattern :: rx where
  "int_pattern = Seq (Cls is_digit) (Seq (Star digit_or_underscore) (NotBehind (\<lambda>c. c = CHR ''_'')))"

text \<open>
  \<^verbatim>\<open>number_pattern = re.compile(rf"(?<![{cannot_start_after}])(-?{int_pattern}(?:\.{int_pattern})?(?:e-?{int_pattern})?)j?(?![a-zA-Z\d\._])", re.ASCII)\<close>.
  \<open>fraction\<close> is \<^verbatim>\<open>\.{int_pattern}\<close> and \<open>exponent\<close> is \<^verbatim>\<open>e-?{int_pattern}\<close>.
  \<open>number_group\<close> is group 1, which the source never reads: it uses \<^verbatim>\<open>match[0]\<close>.
  \<open>number_end\<close> is what follows the group, \<^verbatim>\<open>j?(?![a-zA-Z\d\._])\<close>.
\<close>

definition fraction :: rx where
  "fraction = Seq (Chr (CHR ''.'')) int_pattern"

definition exponent :: rx where
  "exponent = Seq (Chr (CHR ''e'')) (Seq (Opt (Chr (CHR ''-''))) int_pattern)"

definition number_group :: rx where
  "number_group = Seq (Opt (Chr (CHR ''-''))) (Seq int_pattern (Seq (Opt fraction) (Opt exponent)))"

definition number_end :: rx where
  "number_end = Seq (Opt (Chr (CHR ''j''))) (NotAhead cannot_follow_number)"

definition number_pattern :: rx where
  "number_pattern = Seq (NotBehind cannot_start_after) (Seq number_group number_end)"

text \<open>\<^verbatim>\<open>open_float_pattern = re.compile(r"((?<!\d)\.\d)|(\d\.(?!\d))", re.ASCII)\<close>\<close>

definition open_float_pattern :: rx where
  "open_float_pattern = Alt
     (Seq (NotBehind is_digit) (Seq (Chr (CHR ''.'')) (Cls is_digit)))
     (Seq (Cls is_digit) (Seq (Chr (CHR ''.'')) (NotAhead is_digit)))"


section \<open>The validation at the start of the main block\<close>

text \<open>
  An exception that ends the run. The two \<^verbatim>\<open>ValueError\<close>s of the source carry their
  message; \<open>InvalidCharacter\<close> and \<open>AmbiguousFloatLiteral\<close> name them as the
  specification does.
\<close>

datatype pyexc = ValueError string | TypeError | OtherException

definition InvalidCharacter :: "string \<Rightarrow> pyexc" where
  "InvalidCharacter m = ValueError (''Character not allowed: '' @ m)"

definition AmbiguousFloatLiteral :: pyexc where
  "AmbiguousFloatLiteral = ValueError ''Open floats ('123.' or '.123') are not allowed.''"

definition validate :: "string \<Rightarrow> pyexc + unit" where
  "validate expression =
     (case re_search disallowed_characters expression of
        Some m \<Rightarrow> Inl (InvalidCharacter m)
      | None \<Rightarrow>
         (case re_search open_float_pattern expression of
            Some m \<Rightarrow> Inl AmbiguousFloatLiteral
          | None \<Rightarrow> Inr ()))"


section \<open>The rewriting stages and the evaluation\<close>

subsection \<open>Names\<close>

text \<open>The replacement template \<^verbatim>\<open>r"mp.\1"\<close>, applied to the text of a match.\<close>

definition mp_prefix :: "string \<Rightarrow> string" where
  "mp_prefix m = ''mp.'' @ m"

text \<open>\<^verbatim>\<open>expression = re.sub(name_pattern, r"mp.\1", expression)\<close>\<close>

definition qualify_names :: "string \<Rightarrow> string" where
  "qualify_names expression = re_sub name_pattern mp_prefix expression"

subsection \<open>Numbers\<close>

text \<open>
  The variables that the main block sets from the command line:
  \<^verbatim>\<open>args.expression\<close>, \<^verbatim>\<open>DIGITS\<close>, \<^verbatim>\<open>ALL_DIGITS\<close> and \<^verbatim>\<open>DEBUG\<close>.
\<close>

record args =
  expression :: string
  DIGITS :: int
  ALL_DIGITS :: bool
  DEBUG :: bool

text \<open>
  The arithmetic library and Python's \<^verbatim>\<open>eval\<close> are not part of the source. They are
  parameters of the model, over a type \<open>'v\<close> of Python values.

  \<^verbatim>\<open>eval(expression, globals={"NUMBERS": NUMBERS, "mp": mp})\<close> runs code that the
  user wrote. That code has the builtins, so it can read the command line and every
  variable of the script; it is handed the dictionary \<open>NUMBERS\<close> itself, not a copy; it
  can print, and it can rebind the variables of the script. An evaluation is therefore
  more than a value: \<open>outcome\<close> is the value returned or the exception raised,
  \<open>written\<close> is what the evaluated code has printed on its own, \<open>vars_after\<close> holds
  the variables \<open>DIGITS\<close>, \<open>ALL_DIGITS\<close> and \<open>DEBUG\<close> as the evaluated code leaves them,
  and \<open>table_after\<close> is \<open>NUMBERS\<close> as it leaves it. A key that the evaluated code
  stores need not be a string: \<open>Str k\<close> is the string \<open>k\<close>, \<open>Obj x\<close> any other value.
  The evaluated code is taken to leave the library and the builtins as they are.
\<close>

datatype 'v key = Str string | Obj 'v

record 'v evaluation =
  outcome :: "pyexc + 'v"
  written :: "string list"
  vars_after :: args
  table_after :: "('v key \<times> 'v) list"

text \<open>
  \<open>mpmathify_str\<close> is \<^verbatim>\<open>mp.mpmathify\<close> on the text of a literal, \<open>mpmathify_val\<close> is
  \<^verbatim>\<open>mp.mpmathify\<close> on an evaluated result, and \<open>py_eval\<close> is the call of
  \<^verbatim>\<open>eval\<close>: its arguments are the command line, the expression string and the
  table. The first argument of each is the number of digits of the enclosing
  \<^verbatim>\<open>mp.workdps(DIGITS)\<close>.
\<close>

record 'v mp =
  mpmathify_str :: "int \<Rightarrow> string \<Rightarrow> pyexc + 'v"
  mpmathify_val :: "int \<Rightarrow> 'v \<Rightarrow> pyexc + 'v"
  py_eval :: "int \<Rightarrow> args \<Rightarrow> string \<Rightarrow> (string \<times> 'v) list \<Rightarrow> 'v evaluation"

text \<open>
  The module-level state. \<open>NUMBERS\<close> is the dictionary of the source, as the list of
  its items in insertion order. \<open>mpmathify_calls\<close> is not in the source: it records the
  arguments of the calls of \<^verbatim>\<open>mp.mpmathify\<close> that \<^verbatim>\<open>replace_number_with_mpf\<close> has
  made, so that how often a literal is parsed can be stated.
\<close>

record 'v globals =
  NUMBERS :: "(string \<times> 'v) list"
  mpmathify_calls :: "string list"

text \<open>\<^verbatim>\<open>NUMBERS = {}\<close>, executed when the script starts.\<close>

definition module_init :: "'v globals" where
  "module_init = \<lparr>NUMBERS = [], mpmathify_calls = []\<rparr>"

text \<open>\<^verbatim>\<open>f"NUMBERS['{key}']"\<close>\<close>

definition lookup_expression :: "string \<Rightarrow> string" where
  "lookup_expression key = ''NUMBERS['' @ [quote] @ key @ [quote] @ '']''"

text \<open>
  \<^verbatim>\<open>
  def replace_number_with_mpf(match):
      global NUMBERS
      key = match[0]
      if not key in NUMBERS:
          NUMBERS[key] = mp.mpmathify(key)
      return f"NUMBERS['{key}']"
  \<close>
  The argument \<open>m\<close> is \<^verbatim>\<open>match[0]\<close>, the whole text of the match.
\<close>

definition replace_number_with_mpf ::
  "'v mp \<Rightarrow> int \<Rightarrow> string \<Rightarrow> 'v globals \<Rightarrow> (pyexc + string) \<times> 'v globals" where
  "replace_number_with_mpf env digits m g =
     (let key = m in
      if key \<in> set (map fst (NUMBERS g)) then (Inr (lookup_expression key), g)
      else (case mpmathify_str env digits key of
              Inl e \<Rightarrow> (Inl e, g\<lparr>mpmathify_calls := mpmathify_calls g @ [key]\<rparr>)
            | Inr v \<Rightarrow> (Inr (lookup_expression key),
                g\<lparr>NUMBERS := NUMBERS g @ [(key, v)],
                  mpmathify_calls := mpmathify_calls g @ [key]\<rparr>)))"

text \<open>
  \<^verbatim>\<open>re.sub\<close> with a function as replacement: the function is called once for each
  match, from left to right, and an exception it raises ends the substitution. The
  state is returned in both cases.
\<close>

fun sub_with :: "(string \<Rightarrow> 'g \<Rightarrow> (pyexc + string) \<times> 'g) \<Rightarrow> seg list \<Rightarrow> 'g \<Rightarrow> (pyexc + string) \<times> 'g" where
  "sub_with f [] g = (Inr [], g)"
| "sub_with f (Gap c # segs) g =
     (case sub_with f segs g of (Inl e, g') \<Rightarrow> (Inl e, g') | (Inr out, g') \<Rightarrow> (Inr (c # out), g'))"
| "sub_with f (Hit m # segs) g =
     (case f m g of
        (Inl e, g1) \<Rightarrow> (Inl e, g1)
      | (Inr t, g1) \<Rightarrow>
         (case sub_with f segs g1 of (Inl e, g') \<Rightarrow> (Inl e, g') | (Inr out, g') \<Rightarrow> (Inr (t @ out), g')))"

text \<open>\<^verbatim>\<open>expression = re.sub(number_pattern, replace_number_with_mpf, expression)\<close>\<close>

definition replace_numbers ::
  "'v mp \<Rightarrow> int \<Rightarrow> string \<Rightarrow> 'v globals \<Rightarrow> (pyexc + string) \<times> 'v globals" where
  "replace_numbers env digits expr g =
     sub_with (replace_number_with_mpf env digits) (finditer number_pattern expr) g"

text \<open>The texts of the matches of a walk, in order.\<close>

fun hits :: "seg list \<Rightarrow> string list" where
  "hits [] = []"
| "hits (Gap c # segs) = hits segs"
| "hits (Hit m # segs) = m # hits segs"

subsection \<open>Backslashes\<close>

text \<open>
  Python's \<^verbatim>\<open>str.replace(old, new)\<close>: the occurrences of \<open>old\<close> are found from the
  left, without overlap; an empty \<open>old\<close> matches before every character and at the end.
\<close>

function str_replace :: "string \<Rightarrow> string \<Rightarrow> string \<Rightarrow> string" where
  "str_replace old new [] = (if old = [] then new else [])"
| "str_replace old new (c # cs) =
     (if old = [] then new @ c # str_replace old new cs
      else if take (length old) (c # cs) = old
        then new @ str_replace old new (drop (length old) (c # cs))
      else c # str_replace old new cs)"
  by pat_completeness auto
termination
  by (relation "measure (\<lambda>(old, new, s). length s)") auto

text \<open>\<^verbatim>\<open>expression = expression.replace("\\", "")\<close>\<close>

definition strip_backslashes :: "string \<Rightarrow> string" where
  "strip_backslashes expr = str_replace [backslash] [] expr"

subsection \<open>The main block\<close>

text \<open>
  What the script writes to standard output, one item for each call that prints:
  \<^item> \<open>Debug_line label text\<close> is \<^verbatim>\<open>print(f"{label:<25}", text)\<close>;
  \<^item> \<open>Debug_numbers table\<close> is \<^verbatim>\<open>print(f"{'Contents of NUMBERS:':<25}", NUMBERS)\<close>;
  \<^item> \<open>Written text\<close> is a piece of output of the evaluated code;
  \<^item> \<open>Result_repr v\<close> is \<^verbatim>\<open>print("Result:", repr(value), sep="\n")\<close>;
  \<^item> \<open>Nprint v n\<close> is \<^verbatim>\<open>mp.nprint(v, n, strip_zeros=False)\<close>;
  \<^item> \<open>Print_value v\<close> is \<^verbatim>\<open>print(value)\<close>.

  An item is the call, not the text that the call produces: how \<^verbatim>\<open>mp.nprint\<close>,
  \<^verbatim>\<open>repr\<close> and \<^verbatim>\<open>print\<close> render a value is the library's and Python's matter.
  Printing is taken not to raise.
\<close>

datatype 'v printed =
    Debug_line string string
  | Debug_numbers "(string \<times> 'v) list"
  | Written string
  | Result_repr 'v
  | Nprint 'v int
  | Print_value 'v

text \<open>
  A run of the main block: what it has printed, the exception that ended it if one
  did, the module-level state as the statements of the script leave it (after the
  extraction, or as far as the run got), and the dictionary \<open>NUMBERS\<close> at the end of the
  run, which is the one the evaluated code leaves when the run gets that far.
\<close>

record 'v run =
  printed :: "'v printed list"
  raised :: "pyexc option"
  extracted :: "'v globals"
  final_table :: "('v key \<times> 'v) list"

definition debug_print :: "args \<Rightarrow> 'v printed list \<Rightarrow> 'v printed list" where
  "debug_print a items = (if DEBUG a then items else [])"

definition str_keys :: "(string \<times> 'v) list \<Rightarrow> ('v key \<times> 'v) list" where
  "str_keys table = map (\<lambda>(k, v). (Str k, v)) table"

text \<open>
  The lines that print the result:
  \<^verbatim>\<open>
  if DEBUG:
      print("Result:", repr(value), sep="\n")
  elif ALL_DIGITS:
      try:
          mp.nprint(mp.mpmathify(value), DIGITS, strip_zeros=False)
      except TypeError:
          mp.nprint(value, DIGITS, strip_zeros=False)
  else:
      print(value)
  \<close>
  \<open>a'\<close> holds the variables as they are read here, after the evaluation; \<open>digits\<close> is
  the number of digits of the enclosing \<^verbatim>\<open>mp.workdps\<close>. The result is what is printed
  and the exception that leaves the block, if one does.
\<close>

definition print_result :: "'v mp \<Rightarrow> int \<Rightarrow> args \<Rightarrow> 'v \<Rightarrow> 'v printed list \<times> pyexc option" where
  "print_result env digits a' v =
     (if DEBUG a' then ([Result_repr v], None)
      else if ALL_DIGITS a' then
        (case mpmathify_val env digits v of
           Inr x \<Rightarrow> ([Nprint x (DIGITS a')], None)
         | Inl TypeError \<Rightarrow> ([Nprint v (DIGITS a')], None)
         | Inl e \<Rightarrow> ([], Some e))
      else ([Print_value v], None))"

text \<open>
  The block under \<^verbatim>\<open>if __name__ == "__main__":\<close>, after the arguments are parsed.
  \<open>g\<close> is the module-level state on entry.
\<close>

definition main_block :: "'v mp \<Rightarrow> args \<Rightarrow> 'v globals \<Rightarrow> 'v run" where
  "main_block env a g =
    (let out0 = debug_print a [Debug_line ''Input:'' (expression a)] in
     case validate (expression a) of
       Inl e \<Rightarrow> \<lparr>printed = out0, raised = Some e, extracted = g,
                 final_table = str_keys (NUMBERS g)\<rparr>
     | Inr _ \<Rightarrow>
       (let e1 = qualify_names (expression a);
            out1 = out0 @ debug_print a [Debug_line ''Replaced names:'' e1] in
        case replace_numbers env (DIGITS a) e1 g of
          (Inl e, g2) \<Rightarrow> \<lparr>printed = out1, raised = Some e, extracted = g2,
                            final_table = str_keys (NUMBERS g2)\<rparr>
        | (Inr e2, g2) \<Rightarrow>
          (let out2 = out1 @ debug_print a
                 [Debug_line ''Replaced numbers:'' e2, Debug_numbers (NUMBERS g2)];
               e3 = strip_backslashes e2;
               out3 = out2 @ debug_print a [Debug_line ''Removed backslashes:'' e3];
               ev = py_eval env (DIGITS a) a e3 (NUMBERS g2);
               out4 = out3 @ map Written (written ev) in
           case outcome ev of
             Inl e \<Rightarrow> \<lparr>printed = out4, raised = Some e, extracted = g2,
                       final_table = table_after ev\<rparr>
           | Inr v \<Rightarrow>
              (case print_result env (DIGITS a) (vars_after ev) v of
                 (items, r) \<Rightarrow> \<lparr>printed = out4 @ items, raised = r, extracted = g2,
                                  final_table = table_after ev\<rparr>))))"

text \<open>One invocation of the script: the module-level statements, then the main block.\<close>

definition script :: "'v mp \<Rightarrow> args \<Rightarrow> 'v run" where
  "script env a = main_block env a module_init"

subsection \<open>Notions used in the statements\<close>

text \<open>
  The module-level state is well formed for a library \<open>env\<close> at \<open>digits\<close> digits: no
  key occurs twice, every item was stored by one call of \<^verbatim>\<open>mp.mpmathify\<close> on its key,
  and no other call was made.
\<close>

definition wf_globals :: "'v mp \<Rightarrow> int \<Rightarrow> 'v globals \<Rightarrow> bool" where
  "wf_globals env digits g \<longleftrightarrow> distinct (map fst (NUMBERS g))
     \<and> mpmathify_calls g = map fst (NUMBERS g)
     \<and> (\<forall>(k, v) \<in> set (NUMBERS g). mpmathify_str env digits k = Inr v)"

text \<open>
  A stand-in for the library, to run the model on concrete inputs: a value is the text
  it was made from, nothing raises, and the evaluated code prints nothing and changes
  neither the variables nor the table.
\<close>

definition text_mp :: "string mp" where
  "text_mp = \<lparr>mpmathify_str = (\<lambda>digits key. Inr key), mpmathify_val = (\<lambda>digits v. Inr v),
     py_eval = (\<lambda>digits a e table.
        \<lparr>outcome = Inr e, written = [], vars_after = a, table_after = str_keys table\<rparr>)\<rparr>"

text \<open>
  The same stand-in, except that it evaluates the one expression
  \<^verbatim>\<open>NUMBERS.setdefault(7, NUMBERS['5'])\<close> as Python does: the value stored under the
  key \<^verbatim>\<open>'5'\<close> is stored under the new key \<^verbatim>\<open>7\<close> of the table and returned. The
  value \<^verbatim>\<open>7\<close> is the text \<^verbatim>\<open>7\<close>, as every value of the stand-in is a text.
\<close>

definition setdefault_mp :: "string mp" where
  "setdefault_mp = text_mp\<lparr>py_eval := (\<lambda>digits a e table.
      if e = ''NUMBERS.setdefault(7, NUMBERS['5'])''
      then (case map_of table ''5'' of
              Some v \<Rightarrow> \<lparr>outcome = Inr v, written = [], vars_after = a,
                          table_after = str_keys table @ [(Obj ''7'', v)]\<rparr>
            | None \<Rightarrow> \<lparr>outcome = Inl OtherException, written = [], vars_after = a,
                        table_after = str_keys table\<rparr>)
      else py_eval text_mp digits a e table)\<rparr>"


section \<open>The specification's descriptions of the stages\<close>

subsection \<open>Open floats\<close>

text \<open>
  A digit immediately followed by a period with no following digit, or a period
  immediately followed by a digit with no preceding digit, at index \<open>i\<close>.
\<close>

definition open_float_at :: "string \<Rightarrow> nat \<Rightarrow> bool" where
  "open_float_at s i \<longleftrightarrow>
     (is_digit (s ! i) \<and> i + 1 < length s \<and> s ! (i + 1) = CHR ''.''
        \<and> \<not> (i + 2 < length s \<and> is_digit (s ! (i + 2))))
   \<or> (s ! i = CHR ''.'' \<and> i + 1 < length s \<and> is_digit (s ! (i + 1))
        \<and> \<not> (0 < i \<and> is_digit (s ! (i - 1))))"

definition has_open_float :: "string \<Rightarrow> bool" where
  "has_open_float s \<longleftrightarrow> (\<exists>i<length s. open_float_at s i)"

subsection \<open>Identifiers\<close>

text \<open>
  A name or a number may start behind the text \<open>b\<close> (last character first) unless the
  last character is a letter, a digit, an underscore, a period or a backslash.
\<close>

definition may_start_after :: "string \<Rightarrow> bool" where
  "may_start_after b \<longleftrightarrow> \<not> (b \<noteq> [] \<and> cannot_start_after (hd b))"

text \<open>
  The identifier at the head of \<open>a\<close>: a letter or an underscore, followed by the
  longest run of letters and digits.
\<close>

definition identifier_at :: "string \<Rightarrow> string option" where
  "identifier_at a =
     (if a \<noteq> [] \<and> name_first (hd a) then Some (hd a # takeWhile name_rest (tl a)) else None)"

text \<open>
  The string with \<^verbatim>\<open>mp.\<close> put before each character that starts an identifier where
  one may start, and nothing else changed. \<open>ok\<close> says whether a name may start at the
  head of the string.
\<close>

fun prefix_names :: "bool \<Rightarrow> string \<Rightarrow> string" where
  "prefix_names ok [] = []"
| "prefix_names ok (c # cs) =
     (if ok \<and> name_first c then ''mp.'' else []) @ c # prefix_names (\<not> cannot_start_after c) cs"

subsection \<open>Numeric literals\<close>

text \<open>\<open>lead c a\<close>: the optional character \<open>c\<close> at the head of \<open>a\<close>.\<close>

definition lead :: "char \<Rightarrow> string \<Rightarrow> string" where
  "lead c a = (if a \<noteq> [] \<and> hd a = c then [c] else [])"

text \<open>
  The integer part at the head of \<open>a\<close>, as the source has it: a digit followed by the
  longest run of digits and underscores, which must not end with an underscore.
\<close>

definition int_part :: "string \<Rightarrow> string option" where
  "int_part a =
     (if a \<noteq> [] \<and> is_digit (hd a)
      then (let run = hd a # takeWhile digit_or_underscore (tl a)
            in if last run = CHR ''_'' then None else Some run)
      else None)"



text \<open>
  The optional fraction and the optional exponent at the head of \<open>a\<close>, for a given
  reading \<open>ip\<close> of the integer part; empty when there is none.
\<close>

definition fraction_part :: "(string \<Rightarrow> string option) \<Rightarrow> string \<Rightarrow> string" where
  "fraction_part ip a =
     (if a \<noteq> [] \<and> hd a = CHR ''.''
      then (case ip (tl a) of Some f \<Rightarrow> CHR ''.'' # f | None \<Rightarrow> [])
      else [])"

definition exponent_part :: "(string \<Rightarrow> string option) \<Rightarrow> string \<Rightarrow> string" where
  "exponent_part ip a =
     (if a \<noteq> [] \<and> hd a = CHR ''e''
      then (let sg = lead (CHR ''-'') (tl a)
            in case ip (drop (length sg) (tl a)) of Some x \<Rightarrow> CHR ''e'' # sg @ x | None \<Rightarrow> [])
      else [])"

text \<open>
  The numeric literal that starts where \<open>b\<close> lies before and \<open>a\<close> after: an optional
  minus, an integer part, an optional fraction, an optional exponent and an optional
  \<^verbatim>\<open>j\<close>, not behind a character that a literal cannot start after and not before a
  letter, a digit, an underscore or a period.
\<close>

definition literal_at :: "(string \<Rightarrow> string option) \<Rightarrow> string \<Rightarrow> string \<Rightarrow> string option" where
  "literal_at ip b a =
     (if \<not> may_start_after b then None
      else
        (let sg = lead (CHR ''-'') a; a1 = drop (length sg) a
         in case ip a1 of
              None \<Rightarrow> None
            | Some n \<Rightarrow>
               (let a2 = drop (length n) a1;
                    fp = fraction_part ip a2; a3 = drop (length fp) a2;
                    ep = exponent_part ip a3; a4 = drop (length ep) a3;
                    im = lead (CHR ''j'') a4; a5 = drop (length im) a4
                in if a5 \<noteq> [] \<and> cannot_follow_number (hd a5) then None
                   else Some (sg @ n @ fp @ ep @ im))))"


section \<open>Facts about the matcher\<close>

lemma ends_Cls: "ends (Cls P) (b, a) = (if a \<noteq> [] \<and> P (hd a) then [(hd a # b, tl a)] else [])"
  by (cases a) simp_all

lemma ends_NotBehind: "ends (NotBehind P) (b, a) = (if b \<noteq> [] \<and> P (hd b) then [] else [(b, a)])"
  by (cases b) simp_all

lemma ends_NotAhead: "ends (NotAhead P) (b, a) = (if a \<noteq> [] \<and> P (hd a) then [] else [(b, a)])"
  by (cases a) simp_all

lemma match_at_Cls:
  "match_at (Cls P) b a = (case a of [] \<Rightarrow> None | c # cs \<Rightarrow> if P c then Some [c] else None)"
  by (cases a) (simp_all add: match_at_def)

text \<open>A search finds nothing exactly when the pattern matches at no position.\<close>

lemma search_from_None:
  "search_from r b a = None \<longleftrightarrow> (\<forall>i\<le>length a. ends r (rev (take i a) @ b, drop i a) = [])"
proof (induction a arbitrary: b)
  case Nil
  show ?case by (simp add: match_at_def split: list.splits)
next
  case (Cons c cs)
  have "(\<forall>i\<le>length (c # cs). ends r (rev (take i (c # cs)) @ b, drop i (c # cs)) = [])
     \<longleftrightarrow> ends r (b, c # cs) = [] \<and> (\<forall>i\<le>length cs. ends r (rev (take i cs) @ c # b, drop i cs) = [])"
    (is "?L \<longleftrightarrow> ?R")
  proof
    assume L: ?L
    have "ends r (b, c # cs) = []" using L[rule_format, of 0] by simp
    moreover have "\<forall>i\<le>length cs. ends r (rev (take i cs) @ c # b, drop i cs) = []"
    proof (intro allI impI)
      fix i assume "i \<le> length cs"
      then show "ends r (rev (take i cs) @ c # b, drop i cs) = []"
        using L[rule_format, of "Suc i"] by simp
    qed
    ultimately show ?R by simp
  next
    assume R: ?R
    show ?L
    proof (intro allI impI)
      fix i assume "i \<le> length (c # cs)"
      then show "ends r (rev (take i (c # cs)) @ b, drop i (c # cs)) = []"
        using R by (cases i) simp_all
    qed
  qed
  then show ?case using Cons.IH[of "c # b"]
    by (simp add: match_at_def split: list.splits option.splits)
qed


lemma concat_map_concat: "concat (map f (concat xss)) = concat (map (\<lambda>xs. concat (map f xs)) xss)"
  by (induction xss) simp_all

lemma take_takeWhile_len: "take (length (takeWhile P xs)) xs = takeWhile P xs"
  by (rule takeWhile_eq_take[symmetric])

lemma drop_takeWhile_len: "drop (length (takeWhile P xs)) xs = dropWhile P xs"
  by (rule dropWhile_eq_drop[symmetric])

lemma match_at_first:
  assumes "ends r (b, a) \<noteq> []" and "snd (hd (ends r (b, a))) = drop (length t) a"
    and "take (length t) a = t"
  shows "match_at r b a = Some t"
proof -
  have "length (take (length t) a) = length t" using assms(3) by simp
  then have "length t \<le> length a" by simp
  then show ?thesis using assms by (cases "ends r (b, a)") (simp_all add: match_at_def)
qed

lemma ends_Seq_NotBehind:
  "ends (Seq (NotBehind P) R) (b, a) = (if b \<noteq> [] \<and> P (hd b) then [] else ends R (b, a))"
  by (simp add: ends_NotBehind)

lemma then_Chr:
  "concat (map K (ends (Chr x) (b, a))) = (if a \<noteq> [] \<and> hd a = x then K (x # b, tl a) else [])"
  by (simp add: Chr_def ends_Cls)

lemma then_Star:
  assumes "\<And>b c a. P c \<Longrightarrow> K (b, c # a) = []"
  shows "concat (map K (ends (Star P) (b, a))) = K (rev (takeWhile P a) @ b, dropWhile P a)"
  using assms by (induction a arbitrary: b) simp_all

lemma ends_Seq_Cls:
  "ends (Seq (Cls P) R) (b, a) = (if a \<noteq> [] \<and> P (hd a) then ends R (hd a # b, tl a) else [])"
  by (simp add: ends_Cls)

lemma ends_Star_first:
  "ends (Star P) (b, a) \<noteq> [] \<and> hd (ends (Star P) (b, a)) = (rev (takeWhile P a) @ b, dropWhile P a)"
  by (induction a arbitrary: b) simp_all





section \<open>The validation\<close>

lemma search_disallowed:
  "search_from disallowed_characters b s =
     (case dropWhile allowed_characters s of [] \<Rightarrow> None | c # _ \<Rightarrow> Some [c])"
  by (induction s arbitrary: b) (simp_all add: disallowed_characters_def match_at_Cls)

lemma ends_open_float:
  "ends open_float_pattern (b, a) \<noteq> [] \<longleftrightarrow>
     (\<not> (b \<noteq> [] \<and> is_digit (hd b)) \<and> a \<noteq> [] \<and> hd a = CHR ''.'' \<and> tl a \<noteq> [] \<and> is_digit (hd (tl a)))
   \<or> (a \<noteq> [] \<and> is_digit (hd a) \<and> tl a \<noteq> [] \<and> hd (tl a) = CHR ''.''
        \<and> \<not> (tl (tl a) \<noteq> [] \<and> is_digit (hd (tl (tl a)))))"
  by (simp add: open_float_pattern_def Chr_def ends_Cls ends_NotBehind ends_NotAhead)

lemma ends_open_float_nth:
  "ends open_float_pattern (b, a) \<noteq> [] \<longleftrightarrow>
     (\<not> (b \<noteq> [] \<and> is_digit (hd b)) \<and> 1 < length a \<and> a ! 0 = CHR ''.'' \<and> is_digit (a ! 1))
   \<or> (1 < length a \<and> is_digit (a ! 0) \<and> a ! 1 = CHR ''.'' \<and> \<not> (2 < length a \<and> is_digit (a ! 2)))"
proof (cases a)
  case Nil
  then show ?thesis by (simp add: ends_open_float)
next
  case a1: (Cons x xs)
  show ?thesis
  proof (cases xs)
    case Nil
    then show ?thesis using a1 by (simp add: ends_open_float)
  next
    case a2: (Cons y ys)
    show ?thesis using a1 a2 by (cases ys) (simp_all add: ends_open_float)
  qed
qed

lemma validate_cases:
  "validate s = (case dropWhile allowed_characters s of
       c # _ \<Rightarrow> Inl (InvalidCharacter [c])
     | [] \<Rightarrow> if (\<exists>i\<le>length s. ends open_float_pattern (rev (take i s), drop i s) \<noteq> [])
         then Inl AmbiguousFloatLiteral else Inr ())"
proof (cases "dropWhile allowed_characters s")
  case (Cons c cs)
  show ?thesis unfolding validate_def re_search_def search_disallowed Cons by simp
next
  case Nil
  have "search_from open_float_pattern [] s = None \<longleftrightarrow>
      \<not> (\<exists>i\<le>length s. ends open_float_pattern (rev (take i s), drop i s) \<noteq> [])"
    using search_from_None[of open_float_pattern "[]" s] by simp
  then show ?thesis unfolding validate_def re_search_def search_disallowed Nil
    by (cases "search_from open_float_pattern [] s") simp_all
qed

lemma hd_rev_take: "0 < i \<Longrightarrow> i \<le> length s \<Longrightarrow> hd (rev (take i s)) = s ! (i - 1)"
  by (cases i) (simp_all add: take_Suc_conv_app_nth)

lemma open_float_index:
  "(\<exists>i\<le>length s. ends open_float_pattern (rev (take i s), drop i s) \<noteq> []) \<longleftrightarrow> has_open_float s"
proof -
  have "ends open_float_pattern (rev (take i s), drop i s) \<noteq> [] \<longleftrightarrow> i < length s \<and> open_float_at s i"
    if "i \<le> length s" for i
  proof (cases "i < length s")
    case False
    with that have "i = length s" by simp
    then show ?thesis by (simp add: ends_open_float_nth)
  next
    case True
    have b: "(rev (take i s) \<noteq> [] \<and> is_digit (hd (rev (take i s)))) \<longleftrightarrow> (0 < i \<and> is_digit (s ! (i - 1)))"
      using True by (cases "0 < i") (auto simp: hd_rev_take)
    have l: "k < length (drop i s) \<longleftrightarrow> i + k < length s" for k by auto
    have n: "drop i s ! k = s ! (i + k)" for k using that by simp
    show ?thesis
      unfolding ends_open_float_nth b l n open_float_at_def
      using True by auto
  qed
  then show ?thesis unfolding has_open_float_def by (metis less_imp_le_nat)
qed

lemma validate_by_cases:
  "validate s =
     (if \<exists>c\<in>set s. \<not> allowed_characters c
      then Inl (InvalidCharacter [hd (dropWhile allowed_characters s)])
      else if has_open_float s then Inl AmbiguousFloatLiteral else Inr ())"
proof (cases "dropWhile allowed_characters s")
  case Nil
  then have "\<forall>c\<in>set s. allowed_characters c" by (simp add: dropWhile_eq_Nil_conv)
  then show ?thesis unfolding validate_cases Nil by (simp add: open_float_index)
next
  case (Cons c cs)
  then have "\<not> (\<forall>c\<in>set s. allowed_characters c)"
    using dropWhile_eq_Nil_conv[of allowed_characters s] by simp
  then show ?thesis unfolding validate_cases Cons by simp
qed

text \<open>
  C2. The validation fails with \<open>InvalidCharacter\<close>, naming the first character that is
  not allowed, if and only if the string has a character outside the allowed set;
  otherwise it fails with \<open>AmbiguousFloatLiteral\<close> if and only if the string has a digit
  followed by a period with no digit behind it or a period followed by a digit with no
  digit before it; otherwise it accepts. The two errors are different, so the character
  check is decided first. \<^verbatim>\<open>1.\<close> and \<^verbatim>\<open>.5\<close> are rejected, \<^verbatim>\<open>1.0\<close> and \<^verbatim>\<open>0.5\<close>
  are accepted.
\<close>

theorem validate_spec:
  "validate s =
     (if \<exists>c\<in>set s. \<not> allowed_characters c
      then Inl (InvalidCharacter [hd (dropWhile allowed_characters s)])
      else if has_open_float s then Inl AmbiguousFloatLiteral else Inr ())
   \<and> InvalidCharacter m \<noteq> AmbiguousFloatLiteral
   \<and> validate ''1.'' = Inl AmbiguousFloatLiteral
   \<and> validate ''.5'' = Inl AmbiguousFloatLiteral
   \<and> validate ''1.0'' = Inr ()
   \<and> validate ''0.5'' = Inr ()"
proof (intro conjI)
  show "validate s =
     (if \<exists>c\<in>set s. \<not> allowed_characters c
      then Inl (InvalidCharacter [hd (dropWhile allowed_characters s)])
      else if has_open_float s then Inl AmbiguousFloatLiteral else Inr ())"
    by (rule validate_by_cases)
  show "InvalidCharacter m \<noteq> AmbiguousFloatLiteral"
    by (simp add: InvalidCharacter_def AmbiguousFloatLiteral_def)
  show "validate ''1.'' = Inl AmbiguousFloatLiteral" by code_simp
  show "validate ''.5'' = Inl AmbiguousFloatLiteral" by code_simp
  show "validate ''1.0'' = Inr ()" by code_simp
  show "validate ''0.5'' = Inr ()" by code_simp
qed

theorem validate_spec_witness:
  "validate ''$1.'' = Inl (InvalidCharacter ''$'') \<and> validate ''2*(x+1.)'' = Inl AmbiguousFloatLiteral"
proof -
  have 1: "(\<exists>c\<in>set ''$1.''. \<not> allowed_characters c)" by code_simp
  have 2: "hd (dropWhile allowed_characters ''$1.'') = CHR ''$''" by code_simp
  have 3: "\<not> (\<exists>c\<in>set ''2*(x+1.)''. \<not> allowed_characters c)" by code_simp
  have 4: "has_open_float ''2*(x+1.)''"
    unfolding has_open_float_def by (rule exI[of _ 5]) (simp add: open_float_at_def is_digit_def)
  show ?thesis
    using validate_spec[of "''$1.''"] validate_spec[of "''2*(x+1.)''"] 1 2 3 4 by simp
qed


section \<open>The qualification of names\<close>

lemma name_chars: "name_first c \<Longrightarrow> cannot_start_after c" "name_rest c \<Longrightarrow> cannot_start_after c"
  by (auto simp: name_first_def name_rest_def cannot_start_after_def)

lemma match_at_name:
  "match_at name_pattern b a = (if may_start_after b then identifier_at a else None)"
proof (cases "may_start_after b \<and> a \<noteq> [] \<and> name_first (hd a)")
  case False
  then have "ends name_pattern (b, a) = []"
    by (auto simp: name_pattern_def may_start_after_def ends_Seq_NotBehind ends_Seq_Cls simp del: ends.simps(3))
  then show ?thesis using False by (auto simp: match_at_def identifier_at_def)
next
  case True
  let ?t = "hd a # takeWhile name_rest (tl a)"
  have e: "ends name_pattern (b, a) = ends (Star name_rest) (hd a # b, tl a)"
    using True by (auto simp: name_pattern_def may_start_after_def ends_Seq_NotBehind ends_Seq_Cls simp del: ends.simps(3))
  have "ends name_pattern (b, a) \<noteq> []" unfolding e using ends_Star_first by blast
  moreover have "snd (hd (ends name_pattern (b, a))) = drop (length ?t) a"
    unfolding e using True by (cases a) (simp_all add: ends_Star_first drop_takeWhile_len)
  moreover have "take (length ?t) a = ?t" using True by (cases a) (simp_all add: take_takeWhile_len)
  ultimately have "match_at name_pattern b a = Some ?t" by (rule match_at_first)
  then show ?thesis using True by (simp add: identifier_at_def)
qed

lemma prefix_names_run:
  "\<forall>x\<in>set run. name_rest x \<Longrightarrow> prefix_names False (run @ rest) = run @ prefix_names False rest"
  by (induction run) (simp_all add: name_chars)

lemma segments_name:
  "concat (map (seg_sub mp_prefix) (segments name_pattern b a)) = prefix_names (may_start_after b) a"
proof (induction name_pattern b a rule: segments.induct)
  case (1 b)
  show ?case by simp
next
  case (2 b c cs)
  show ?case
  proof (cases "may_start_after b \<and> name_first c")
    case False
    then have m: "match_at name_pattern b (c # cs) = None"
      by (auto simp: match_at_name identifier_at_def)
    have "may_start_after (c # b) = (\<not> cannot_start_after c)" by (simp add: may_start_after_def)
    then show ?thesis using 2(1)[OF m] m False by auto
  next
    case True
    let ?run = "takeWhile name_rest cs"
    let ?m = "c # ?run"
    have m: "match_at name_pattern b (c # cs) = Some ?m"
      using True by (simp add: match_at_name identifier_at_def)
    have ne: "?m \<noteq> []" by simp
    have blocked: "\<not> may_start_after (rev ?m @ b)"
    proof (cases "?run = []")
      case True
      then show ?thesis using \<open>may_start_after b \<and> name_first c\<close> by (simp add: may_start_after_def name_chars)
    next
      case False
      then have "last ?run \<in> set ?run" by simp
      then have "name_rest (last ?run)" by (metis set_takeWhileD)
      then show ?thesis using False by (simp add: may_start_after_def name_chars hd_rev)
    qed
    have d: "drop (length ?m) (c # cs) = dropWhile name_rest cs" by (simp add: drop_takeWhile_len)
    have ih: "concat (map (seg_sub mp_prefix) (segments name_pattern (rev ?m @ b) (drop (length ?m) (c # cs))))
        = prefix_names False (dropWhile name_rest cs)"
      using 2(3)[OF m ne] blocked d by simp
    have run: "prefix_names False (?run @ dropWhile name_rest cs) = ?run @ prefix_names False (dropWhile name_rest cs)"
      by (rule prefix_names_run) (metis set_takeWhileD)
    have "prefix_names (may_start_after b) (c # cs) = ''mp.'' @ c # prefix_names False cs"
      using True by (simp add: name_chars)
    also have "\<dots> = ''mp.'' @ c # ?run @ prefix_names False (dropWhile name_rest cs)"
      using run by simp
    finally show ?thesis using m ih by (simp add: mp_prefix_def)
  qed
qed

lemma qualify: "qualify_names s = prefix_names True s"
  using segments_name[of "[]" s] by (simp add: qualify_names_def re_sub_def finditer_def may_start_after_def)

text \<open>
  C3. The qualifier rewrites exactly the identifiers that start where a name may start:
  at every position its pattern matches the longest run of a letter or underscore
  followed by letters and digits, provided the character before is not a letter, a
  digit, an underscore, a period or a backslash, and nothing else. Its output is the
  input with \<^verbatim>\<open>mp.\<close> put before each such run and no other character changed; a
  name behind a backslash stays as it is, with the backslash in place.
\<close>

theorem qualify_names_spec:
  "qualify_names s = prefix_names True s
   \<and> match_at name_pattern b a = (if may_start_after b then identifier_at a else None)
   \<and> qualify_names ''sin(x)'' = ''mp.sin(mp.x)''
   \<and> qualify_names (backslash # ''x'') = backslash # ''x''"
proof (intro conjI)
  show "qualify_names s = prefix_names True s" by (rule qualify)
  show "match_at name_pattern b a = (if may_start_after b then identifier_at a else None)"
    by (rule match_at_name)
  show "qualify_names ''sin(x)'' = ''mp.sin(mp.x)''" by code_simp
  show "qualify_names (backslash # ''x'') = backslash # ''x''" by code_simp
qed


section \<open>The extraction of numbers: which texts are replaced\<close>

lemma number_chars:
  "digit_or_underscore c \<Longrightarrow> c \<noteq> CHR ''.''"
  "digit_or_underscore c \<Longrightarrow> c \<noteq> CHR ''e''"
  "digit_or_underscore c \<Longrightarrow> c \<noteq> CHR ''j''"
  "digit_or_underscore c \<Longrightarrow> cannot_follow_number c"
  "cannot_follow_number (CHR ''.'')"
  "cannot_follow_number (CHR ''e'')"
  "cannot_follow_number (CHR ''j'')"
  "\<not> is_digit (CHR ''-'')"
  "is_digit c \<Longrightarrow> digit_or_underscore c"
  by (auto simp: digit_or_underscore_def cannot_follow_number_def is_digit_def is_letter_def)

lemma then_int:
  assumes "\<And>b c a. digit_or_underscore c \<Longrightarrow> K (b, c # a) = []"
  shows "concat (map K (ends int_pattern (b, a))) =
     (case int_part a of None \<Rightarrow> [] | Some n \<Rightarrow> K (rev n @ b, drop (length n) a))"
proof (cases "a \<noteq> [] \<and> is_digit (hd a)")
  case False
  then show ?thesis by (auto simp: int_pattern_def ends_Cls int_part_def)
next
  case True
  then obtain c cs where a: "a = c # cs" and c: "is_digit c" by (cases a) auto
  let ?run = "takeWhile digit_or_underscore cs"
  let ?K = "\<lambda>q. concat (map K (ends (NotBehind (\<lambda>c. c = CHR ''_'')) q))"
  have fails: "?K (b', x # a') = []" if "digit_or_underscore x" for b' x a'
    using that assms by (simp add: ends_NotBehind)
  have "concat (map K (ends int_pattern (b, a))) = concat (map ?K (ends (Star digit_or_underscore) (c # b, cs)))"
    using a c by (simp add: int_pattern_def concat_map_concat comp_def)
  also have "\<dots> = ?K (rev ?run @ c # b, dropWhile digit_or_underscore cs)"
    using fails by (rule then_Star)
  also have "\<dots> = ?K (rev ?run @ c # b, drop (length ?run) cs)"
    by (simp only: drop_takeWhile_len)
  also have "\<dots> = (if last (c # ?run) = CHR ''_'' then [] else K (rev (c # ?run) @ b, drop (length (c # ?run)) a))"
    using a by (cases "?run = []") (simp_all add: ends_NotBehind hd_rev hd_append)
  finally show ?thesis using a c by (simp add: int_part_def Let_def)
qed

lemma then_Opt_fraction:
  assumes "\<And>b c a. digit_or_underscore c \<Longrightarrow> K (b, c # a) = []"
    and "\<And>b a. K (b, CHR ''.'' # a) = []"
  shows "concat (map K (ends (Opt fraction) (b, a))) =
     K (rev (fraction_part int_part a) @ b, drop (length (fraction_part int_part a)) a)"
proof (cases "a \<noteq> [] \<and> hd a = CHR ''.''")
  case False
  then show ?thesis by (auto simp: fraction_def fraction_part_def concat_map_concat then_Chr)
next
  case True
  then obtain cs where a: "a = CHR ''.'' # cs" by (cases a) auto
  have "concat (map K (ends (Opt fraction) (b, a))) = concat (map K (ends int_pattern (CHR ''.'' # b, cs))) @ K (b, a)"
    using a by (simp add: fraction_def concat_map_concat then_Chr)
  also have "\<dots> = (case int_part cs of None \<Rightarrow> [] | Some n \<Rightarrow> K (rev n @ CHR ''.'' # b, drop (length n) cs)) @ K (b, a)"
    using assms(1) by (simp add: then_int)
  finally show ?thesis using a assms(2) by (simp add: fraction_part_def split: option.splits)
qed

lemma then_Opt_minus_int:
  assumes "\<And>b c a. digit_or_underscore c \<Longrightarrow> K (b, c # a) = []"
  shows "concat (map (\<lambda>q. concat (map K (ends int_pattern q))) (ends (Opt (Chr (CHR ''-''))) (b, a))) =
     (let sg = lead (CHR ''-'') a in
      case int_part (drop (length sg) a) of None \<Rightarrow> []
      | Some n \<Rightarrow> K (rev n @ rev sg @ b, drop (length n) (drop (length sg) a)))"
proof (cases "a \<noteq> [] \<and> hd a = CHR ''-''")
  case False
  then show ?thesis using assms by (auto simp: then_Chr then_int lead_def split: option.splits)
next
  case True
  then obtain cs where a: "a = CHR ''-'' # cs" by (cases a) auto
  have "int_part a = None" using a by (simp add: int_part_def number_chars)
  then show ?thesis using assms a by (simp add: then_Chr then_int lead_def split: option.splits)
qed

lemma then_Opt_exponent:
  assumes "\<And>b c a. digit_or_underscore c \<Longrightarrow> K (b, c # a) = []"
    and "\<And>b a. K (b, CHR ''e'' # a) = []"
  shows "concat (map K (ends (Opt exponent) (b, a))) =
     K (rev (exponent_part int_part a) @ b, drop (length (exponent_part int_part a)) a)"
proof (cases "a \<noteq> [] \<and> hd a = CHR ''e''")
  case False
  then show ?thesis by (auto simp: exponent_def exponent_part_def concat_map_concat then_Chr)
next
  case True
  then obtain cs where a: "a = CHR ''e'' # cs" by (cases a) auto
  have "concat (map K (ends (Opt exponent) (b, a)))
     = concat (map (\<lambda>q. concat (map K (ends int_pattern q))) (ends (Opt (Chr (CHR ''-''))) (CHR ''e'' # b, cs))) @ K (b, a)"
    using a by (simp add: exponent_def concat_map_concat then_Chr)
  also have "\<dots> = (let sg = lead (CHR ''-'') cs in
      case int_part (drop (length sg) cs) of None \<Rightarrow> []
      | Some n \<Rightarrow> K (rev n @ rev sg @ CHR ''e'' # b, drop (length n) (drop (length sg) cs))) @ K (b, a)"
    using assms(1) by (simp only: then_Opt_minus_int)
  finally show ?thesis using a assms(2)
    by (simp add: exponent_part_def Let_def add.commute split: option.splits)
qed

lemma ends_number_end:
  "ends number_end (b, a) =
     (let im = lead (CHR ''j'') a; a5 = drop (length im) a
      in if a5 \<noteq> [] \<and> cannot_follow_number (hd a5) then [] else [(rev im @ b, a5)])"
proof (cases "a \<noteq> [] \<and> hd a = CHR ''j''")
  case False
  then show ?thesis by (auto simp: number_end_def then_Chr lead_def ends_NotAhead)
next
  case True
  then obtain cs where a: "a = CHR ''j'' # cs" by (cases a) auto
  then show ?thesis by (simp add: number_end_def then_Chr lead_def ends_NotAhead number_chars)
qed

lemma ends_number_end_if:
  "im = lead (CHR ''j'') a4 \<Longrightarrow> a5 = drop (length im) a4 \<Longrightarrow>
     ends number_end (x, a4) = (if a5 \<noteq> [] \<and> cannot_follow_number (hd a5) then [] else [(rev im @ x, a5)])"
  by (simp add: ends_number_end Let_def)

lemma number_end_fails:
  "cannot_follow_number c \<Longrightarrow> c \<noteq> CHR ''j'' \<Longrightarrow> ends number_end (b, c # a) = []"
  by (simp add: ends_number_end lead_def)


lemma after_exponent:
  "concat (map (ends number_end) (ends (Opt exponent) (b, a))) =
     ends number_end (rev (exponent_part int_part a) @ b, drop (length (exponent_part int_part a)) a)"
  by (rule then_Opt_exponent) (simp_all add: number_end_fails number_chars)

lemma after_exponent_fails:
  "cannot_follow_number c \<Longrightarrow> c \<noteq> CHR ''j'' \<Longrightarrow> c \<noteq> CHR ''e'' \<Longrightarrow>
     concat (map (ends number_end) (ends (Opt exponent) (b, c # a))) = []"
  by (simp add: after_exponent exponent_part_def number_end_fails del: ends.simps)

lemma after_fraction:
  "concat (map (\<lambda>q. concat (map (ends number_end) (ends (Opt exponent) q))) (ends (Opt fraction) (b, a))) =
     concat (map (ends number_end) (ends (Opt exponent)
       (rev (fraction_part int_part a) @ b, drop (length (fraction_part int_part a)) a)))"
  by (rule then_Opt_fraction) (simp_all add: after_exponent_fails number_chars del: ends.simps)

lemma after_fraction_fails:
  "digit_or_underscore c \<Longrightarrow>
     concat (map (\<lambda>q. concat (map (ends number_end) (ends (Opt exponent) q))) (ends (Opt fraction) (b, c # a))) = []"
  by (simp add: after_fraction fraction_part_def after_exponent_fails number_chars del: ends.simps)

lemma ends_group_end:
  "ends (Seq number_group number_end) (b, a) =
     (let sg = lead (CHR ''-'') a in
      case int_part (drop (length sg) a) of None \<Rightarrow> []
      | Some n \<Rightarrow>
          concat (map (\<lambda>q. concat (map (ends number_end) (ends (Opt exponent) q)))
            (ends (Opt fraction) (rev n @ rev sg @ b, drop (length n) (drop (length sg) a)))))"
proof -
  let ?K = "\<lambda>q. concat (map (\<lambda>q. concat (map (ends number_end) (ends (Opt exponent) q))) (ends (Opt fraction) q))"
  have "ends (Seq number_group number_end) (b, a) =
      concat (map (\<lambda>q. concat (map ?K (ends int_pattern q))) (ends (Opt (Chr (CHR ''-''))) (b, a)))"
    by (simp add: number_group_def concat_map_concat comp_def del: ends.simps(5))
  also have "\<dots> = (let sg = lead (CHR ''-'') a in
      case int_part (drop (length sg) a) of None \<Rightarrow> []
      | Some n \<Rightarrow> ?K (rev n @ rev sg @ b, drop (length n) (drop (length sg) a)))"
    by (rule then_Opt_minus_int) (rule after_fraction_fails)
  finally show ?thesis .
qed

lemma lead_prefix: "take (length (lead c a)) a = lead c a"
  by (cases a) (simp_all add: lead_def)

lemma int_part_prefix: "int_part a = Some n \<Longrightarrow> take (length n) a = n"
  by (cases a) (auto simp: int_part_def Let_def take_takeWhile_len split: if_splits)

lemma fraction_part_prefix: "take (length (fraction_part int_part a)) a = fraction_part int_part a"
  by (cases a) (auto simp: fraction_part_def int_part_prefix split: option.splits)

lemma take_append_drop:
  "take (length x) a = x \<Longrightarrow> take (length y) (drop (length x) a) = y \<Longrightarrow> take (length (x @ y)) a = x @ y"
  by (simp add: take_add)

lemma exponent_part_prefix: "take (length (exponent_part int_part a)) a = exponent_part int_part a"
proof (cases "a \<noteq> [] \<and> hd a = CHR ''e''")
  case False
  then show ?thesis by (auto simp: exponent_part_def)
next
  case True
  then obtain cs where a: "a = CHR ''e'' # cs" by (cases a) auto
  show ?thesis
  proof (cases "int_part (drop (length (lead (CHR ''-'') cs)) cs)")
    case None
    then show ?thesis using a by (simp add: exponent_part_def)
  next
    case (Some x)
    have "take (length (lead (CHR ''-'') cs @ x)) cs = lead (CHR ''-'') cs @ x"
      using lead_prefix int_part_prefix[OF Some] by (rule take_append_drop)
    then show ?thesis using a Some by (simp add: exponent_part_def)
  qed
qed

lemma literal_at_Some:
  assumes "literal_at int_part b a = Some t"
  shows "take (length t) a = t"
    and "ends number_pattern (b, a) = [(rev t @ b, drop (length t) a)]"
proof -
  define sg where "sg = lead (CHR ''-'') a"
  define a1 where "a1 = drop (length sg) a"
  from assms obtain n where n: "int_part a1 = Some n"
    by (auto simp: literal_at_def Let_def sg_def a1_def split: if_splits option.splits)
  define a2 where "a2 = drop (length n) a1"
  define fp where "fp = fraction_part int_part a2"
  define a3 where "a3 = drop (length fp) a2"
  define ep where "ep = exponent_part int_part a3"
  define a4 where "a4 = drop (length ep) a3"
  define im where "im = lead (CHR ''j'') a4"
  define a5 where "a5 = drop (length im) a4"
  from n have n': "int_part (drop (length (lead (CHR ''-'') a)) a) = Some n"
    by (simp add: a1_def sg_def)
  have la: "literal_at int_part b a =
      (if \<not> may_start_after b then None
       else if a5 \<noteq> [] \<and> cannot_follow_number (hd a5) then None
       else Some (sg @ n @ fp @ ep @ im))"
    unfolding literal_at_def Let_def a5_def im_def a4_def ep_def a3_def fp_def a2_def a1_def sg_def n'
    by (simp only: option.case)
  have ok: "may_start_after b" and nf: "\<not> (a5 \<noteq> [] \<and> cannot_follow_number (hd a5))"
    and t: "t = sg @ n @ fp @ ep @ im"
    using assms unfolding la by (auto split: if_splits)
  have p1: "take (length sg) a = sg" unfolding sg_def by (rule lead_prefix)
  have p2: "take (length n) (drop (length sg) a) = n" using int_part_prefix[OF n] by (simp add: a1_def)
  have p12: "take (length (sg @ n)) a = sg @ n" using p1 p2 by (rule take_append_drop)
  have d2: "a2 = drop (length (sg @ n)) a" by (simp add: a2_def a1_def ac_simps)
  have p3: "take (length fp) (drop (length (sg @ n)) a) = fp"
    unfolding fp_def d2 by (rule fraction_part_prefix)
  have p123: "take (length ((sg @ n) @ fp)) a = (sg @ n) @ fp" using p12 p3 by (rule take_append_drop)
  have d3: "a3 = drop (length ((sg @ n) @ fp)) a" by (simp add: a3_def d2 ac_simps)
  have p4: "take (length ep) (drop (length ((sg @ n) @ fp)) a) = ep"
    unfolding ep_def d3 by (rule exponent_part_prefix)
  have p1234: "take (length (((sg @ n) @ fp) @ ep)) a = ((sg @ n) @ fp) @ ep"
    using p123 p4 by (rule take_append_drop)
  have d4: "a4 = drop (length (((sg @ n) @ fp) @ ep)) a" by (simp add: a4_def d3 ac_simps)
  have p5: "take (length im) (drop (length (((sg @ n) @ fp) @ ep)) a) = im"
    unfolding im_def d4 by (rule lead_prefix)
  have "take (length ((((sg @ n) @ fp) @ ep) @ im)) a = (((sg @ n) @ fp) @ ep) @ im"
    using p1234 p5 by (rule take_append_drop)
  then show "take (length t) a = t" by (simp add: t)
  have d5: "a5 = drop (length t) a" by (simp add: a5_def d4 t ac_simps)
  have "ends number_pattern (b, a) = ends (Seq number_group number_end) (b, a)"
    using ok by (auto simp: number_pattern_def may_start_after_def ends_Seq_NotBehind simp del: ends.simps)
  also have "\<dots> = concat (map (\<lambda>q. concat (map (ends number_end) (ends (Opt exponent) q)))
            (ends (Opt fraction) (rev n @ rev sg @ b, a2)))"
    using n by (simp add: ends_group_end Let_def sg_def[symmetric] a1_def[symmetric] a2_def[symmetric] del: ends.simps)
  also have "\<dots> = concat (map (ends number_end) (ends (Opt exponent) (rev fp @ rev n @ rev sg @ b, a3)))"
    by (simp add: after_fraction fp_def[symmetric] a3_def[symmetric] del: ends.simps)
  also have "\<dots> = ends number_end (rev ep @ rev fp @ rev n @ rev sg @ b, a4)"
    by (simp add: after_exponent ep_def[symmetric] a4_def[symmetric] del: ends.simps)
  also have "\<dots> = [(rev im @ rev ep @ rev fp @ rev n @ rev sg @ b, a5)]"
    using nf ends_number_end_if[OF im_def a5_def] by simp
  finally have "ends number_pattern (b, a) = [(rev im @ rev ep @ rev fp @ rev n @ rev sg @ b, a5)]" .
  then show "ends number_pattern (b, a) = [(rev t @ b, drop (length t) a)]"
    unfolding d5 t by simp
qed

lemma literal_at_None:
  assumes "literal_at int_part b a = None"
  shows "ends number_pattern (b, a) = []"
proof (cases "may_start_after b")
  case False
  then show ?thesis by (auto simp: number_pattern_def may_start_after_def ends_Seq_NotBehind simp del: ends.simps)
next
  case ok: True
  define sg where "sg = lead (CHR ''-'') a"
  define a1 where "a1 = drop (length sg) a"
  have e: "ends number_pattern (b, a) = ends (Seq number_group number_end) (b, a)"
    using ok by (auto simp: number_pattern_def may_start_after_def ends_Seq_NotBehind simp del: ends.simps)
  show ?thesis
  proof (cases "int_part a1")
    case None
    then show ?thesis unfolding e by (simp add: ends_group_end Let_def sg_def[symmetric] a1_def[symmetric] del: ends.simps)
  next
    case (Some n)
    define a2 where "a2 = drop (length n) a1"
    define fp where "fp = fraction_part int_part a2"
    define a3 where "a3 = drop (length fp) a2"
    define ep where "ep = exponent_part int_part a3"
    define a4 where "a4 = drop (length ep) a3"
    define im where "im = lead (CHR ''j'') a4"
    define a5 where "a5 = drop (length im) a4"
    from Some have n': "int_part (drop (length (lead (CHR ''-'') a)) a) = Some n"
      by (simp add: a1_def sg_def)
    have la: "literal_at int_part b a =
        (if \<not> may_start_after b then None
         else if a5 \<noteq> [] \<and> cannot_follow_number (hd a5) then None
         else Some (sg @ n @ fp @ ep @ im))"
      unfolding literal_at_def Let_def a5_def im_def a4_def ep_def a3_def fp_def a2_def a1_def sg_def n'
      by (simp only: option.case)
    have nf: "a5 \<noteq> [] \<and> cannot_follow_number (hd a5)"
      using assms ok unfolding la by (auto split: if_splits)
    have "ends (Seq number_group number_end) (b, a) = concat (map (\<lambda>q. concat (map (ends number_end) (ends (Opt exponent) q)))
            (ends (Opt fraction) (rev n @ rev sg @ b, a2)))"
      using Some by (simp add: ends_group_end Let_def sg_def[symmetric] a1_def[symmetric] a2_def[symmetric] del: ends.simps)
    also have "\<dots> = concat (map (ends number_end) (ends (Opt exponent) (rev fp @ rev n @ rev sg @ b, a3)))"
      by (simp add: after_fraction fp_def[symmetric] a3_def[symmetric] del: ends.simps)
    also have "\<dots> = ends number_end (rev ep @ rev fp @ rev n @ rev sg @ b, a4)"
      by (simp add: after_exponent ep_def[symmetric] a4_def[symmetric] del: ends.simps)
    also have "\<dots> = []"
      using nf ends_number_end_if[OF im_def a5_def] by simp
    finally show ?thesis unfolding e .
  qed
qed

lemma match_at_number: "match_at number_pattern b a = literal_at int_part b a"
proof (cases "literal_at int_part b a")
  case None
  then show ?thesis by (simp add: match_at_def literal_at_None)
next
  case (Some t)
  have "match_at number_pattern b a = Some t"
    using literal_at_Some[OF Some] by (intro match_at_first) simp_all
  then show ?thesis using Some by simp
qed




section \<open>The extraction of numbers: the table and the rewritten string\<close>

lemma replace_number_out:
  "replace_number_with_mpf env digits m g = (Inr t, g1) \<Longrightarrow> t = lookup_expression m"
  by (auto simp: replace_number_with_mpf_def Let_def split: if_splits sum.splits)

lemma sub_with_out:
  "sub_with (replace_number_with_mpf env digits) segs g = (Inr out, g') \<Longrightarrow>
     out = concat (map (seg_sub lookup_expression) segs)"
proof (induction segs arbitrary: g out g')
  case Nil
  then show ?case by simp
next
  case (Cons x segs)
  show ?case
  proof (cases x)
    case (Gap c)
    then show ?thesis using Cons by (auto split: prod.splits sum.splits)
  next
    case (Hit m)
    then show ?thesis using Cons
      by (auto split: prod.splits sum.splits dest: replace_number_out)
  qed
qed

lemma replace_number_wf:
  assumes "replace_number_with_mpf env digits m g = (Inr t, g1)" and "wf_globals env digits g"
  shows "wf_globals env digits g1 \<and> set (map fst (NUMBERS g1)) = insert m (set (map fst (NUMBERS g)))"
  using assms
  by (auto simp: replace_number_with_mpf_def Let_def wf_globals_def split: if_splits sum.splits)

lemma sub_with_wf:
  assumes "sub_with (replace_number_with_mpf env digits) segs g = (Inr out, g')"
    and "wf_globals env digits g"
  shows "wf_globals env digits g' \<and> set (map fst (NUMBERS g')) = set (map fst (NUMBERS g)) \<union> set (hits segs)"
  using assms
proof (induction segs arbitrary: g out g')
  case Nil
  then show ?case by simp
next
  case (Cons x segs)
  show ?case
  proof (cases x)
    case (Gap c)
    then show ?thesis using Cons by (auto split: prod.splits sum.splits)
  next
    case (Hit m)
    from Cons.prems(1) Hit obtain t g1 out1 where
      1: "replace_number_with_mpf env digits m g = (Inr t, g1)" and
      2: "sub_with (replace_number_with_mpf env digits) segs g1 = (Inr out1, g')"
      by (auto split: prod.splits sum.splits)
    from replace_number_wf[OF 1 Cons.prems(2)] Cons.IH[OF 2] Hit show ?thesis by auto
  qed
qed

lemma snd_sub_with_Gap: "snd (sub_with f (Gap c # segs) g) = snd (sub_with f segs g)"
  by (simp split: prod.splits sum.splits)

lemma snd_sub_with_Hit:
  "snd (sub_with f (Hit m # segs) g) =
     (case f m g of (Inl e, g1) \<Rightarrow> g1 | (Inr t, g1) \<Rightarrow> snd (sub_with f segs g1))"
  by (simp split: prod.splits sum.splits)

lemma replace_number_keys:
  "set (map fst (NUMBERS (snd (replace_number_with_mpf env digits m g))))
     \<subseteq> insert m (set (map fst (NUMBERS g)))"
  by (auto simp: replace_number_with_mpf_def Let_def split: if_splits sum.splits)

lemma sub_with_keys_subset:
  "set (map fst (NUMBERS (snd (sub_with (replace_number_with_mpf env digits) segs g))))
     \<subseteq> set (map fst (NUMBERS g)) \<union> set (hits segs)"
proof (induction segs arbitrary: g)
  case Nil
  then show ?case by simp
next
  case (Cons x segs)
  show ?case
  proof (cases x)
    case (Gap c)
    then show ?thesis using Cons[of g] by (simp only: snd_sub_with_Gap hits.simps)
  next
    case (Hit m)
    obtain r g1 where 1: "replace_number_with_mpf env digits m g = (r, g1)" by fastforce
    have k: "set (map fst (NUMBERS g1)) \<subseteq> insert m (set (map fst (NUMBERS g)))"
      using replace_number_keys[of env digits m g] 1 by simp
    show ?thesis
    proof (cases r)
      case (Inl e)
      have "set (map fst (NUMBERS g1)) \<subseteq> set (map fst (NUMBERS g)) \<union> set (hits (Hit m # segs))"
        using k by auto
      then show ?thesis using Hit 1 Inl by (simp only: snd_sub_with_Hit prod.case sum.case)
    next
      case (Inr t)
      have "set (map fst (NUMBERS (snd (sub_with (replace_number_with_mpf env digits) segs g1))))
          \<subseteq> set (map fst (NUMBERS g1)) \<union> set (hits segs)" by (rule Cons)
      then have "set (map fst (NUMBERS (snd (sub_with (replace_number_with_mpf env digits) segs g1))))
          \<subseteq> set (map fst (NUMBERS g)) \<union> set (hits (Hit m # segs))" using k by auto
      then show ?thesis using Hit 1 Inr by (simp only: snd_sub_with_Hit prod.case sum.case)
    qed
  qed
qed

lemma lookup_expression_inj: "lookup_expression k = lookup_expression k' \<longleftrightarrow> k = k'"
  by (simp add: lookup_expression_def)

lemma count_lookups:
  "count_list (map (seg_sub lookup_expression) segs) (lookup_expression k) = count_list (hits segs) k"
proof (induction segs)
  case Nil
  then show ?case by simp
next
  case (Cons x segs)
  then show ?case by (cases x) (auto simp: lookup_expression_inj, simp add: lookup_expression_def)
qed

lemma distinct_count: "distinct xs \<Longrightarrow> x \<in> set xs \<Longrightarrow> count_list xs x = 1"
  by (induction xs) (auto simp: count_list_0_iff)

lemma wf_module_init: "wf_globals env digits module_init"
  by (simp add: wf_globals_def module_init_def)


lemma finditer_example: "finditer number_pattern ''1.5 + 1.5'' =
    [Hit ''1.5'', Gap (CHR '' ''), Gap (CHR ''+''), Gap (CHR '' ''), Hit ''1.5'']"
  by code_simp

text \<open>
  C5. When the extraction succeeds and a text \<open>k\<close> occurs at least once as a match,
  the table ends with exactly one item keyed by \<open>k\<close>, \<^verbatim>\<open>mp.mpmathify\<close> was called
  exactly once on \<open>k\<close>, and the rewritten string is the walk with every match replaced
  by its lookup expression, the one of \<open>k\<close> as often as \<open>k\<close> is matched. For
  \<^verbatim>\<open>1.5 + 1.5\<close> the table has the one item of \<^verbatim>\<open>1.5\<close>, referenced twice.
\<close>

theorem extraction_idempotent:
  assumes "replace_numbers env digits s module_init = (Inr out, g')"
    and "k \<in> set (hits (finditer number_pattern s))"
  shows "count_list (map fst (NUMBERS g')) k = 1
    \<and> count_list (mpmathify_calls g') k = 1
    \<and> out = concat (map (seg_sub lookup_expression) (finditer number_pattern s))
    \<and> count_list (map (seg_sub lookup_expression) (finditer number_pattern s)) (lookup_expression k)
        = count_list (hits (finditer number_pattern s)) k
    \<and> (mpmathify_str env digits ''1.5'' = Inr v \<longrightarrow>
         replace_numbers env digits ''1.5 + 1.5'' module_init =
           (Inr (lookup_expression ''1.5'' @ '' + '' @ lookup_expression ''1.5''),
            \<lparr>NUMBERS = [(''1.5'', v)], mpmathify_calls = [''1.5'']\<rparr>))"
proof -
  let ?segs = "finditer number_pattern s"
  have sw: "sub_with (replace_number_with_mpf env digits) ?segs module_init = (Inr out, g')"
    using assms(1) by (simp add: replace_numbers_def)
  from sub_with_wf[OF sw wf_module_init]
  have wf: "wf_globals env digits g'" and keys: "set (map fst (NUMBERS g')) = set (hits ?segs)"
    by (simp_all add: module_init_def)
  have d: "distinct (map fst (NUMBERS g'))" and c: "mpmathify_calls g' = map fst (NUMBERS g')"
    using wf by (simp_all add: wf_globals_def)
  have 1: "count_list (map fst (NUMBERS g')) k = 1"
    using d keys assms(2) by (intro distinct_count) simp_all
  have 2: "out = concat (map (seg_sub lookup_expression) ?segs)" using sw by (rule sub_with_out)
  have 3: "mpmathify_str env digits ''1.5'' = Inr v \<longrightarrow>
         replace_numbers env digits ''1.5 + 1.5'' module_init =
           (Inr (lookup_expression ''1.5'' @ '' + '' @ lookup_expression ''1.5''),
            \<lparr>NUMBERS = [(''1.5'', v)], mpmathify_calls = [''1.5'']\<rparr>)"
    by (simp add: replace_numbers_def finditer_example replace_number_with_mpf_def module_init_def Let_def)
  show ?thesis using 1 2 3 c count_lookups by simp
qed

theorem extraction_idempotent_witness:
  "replace_numbers text_mp 10 ''1.5 + 1.5'' module_init =
     (Inr ''NUMBERS['1.5'] + NUMBERS['1.5']'', \<lparr>NUMBERS = [(''1.5'', ''1.5'')], mpmathify_calls = [''1.5'']\<rparr>)
   \<and> count_list (hits (finditer number_pattern ''1.5 + 1.5'')) ''1.5'' = 2
   \<and> count_list (map (seg_sub lookup_expression) (finditer number_pattern ''1.5 + 1.5''))
        (lookup_expression ''1.5'') = 2
   \<and> count_list (map fst [(''1.5'', ''1.5'')]) ''1.5'' = (1::nat)"
proof -
  have h1: "replace_numbers text_mp 10 ''1.5 + 1.5'' module_init =
     (Inr ''NUMBERS['1.5'] + NUMBERS['1.5']'', \<lparr>NUMBERS = [(''1.5'', ''1.5'')], mpmathify_calls = [''1.5'']\<rparr>)"
    by code_simp
  have h2: "''1.5'' \<in> set (hits (finditer number_pattern ''1.5 + 1.5''))" by code_simp
  have h3: "count_list (hits (finditer number_pattern ''1.5 + 1.5'')) ''1.5'' = 2" by code_simp
  from extraction_idempotent[OF h1 h2] h1 h3 show ?thesis by simp
qed

lemma ends_number_follow:
  "q \<in> set (ends number_pattern p) \<Longrightarrow> \<not> (snd q \<noteq> [] \<and> cannot_follow_number (hd (snd q)))"
  by (cases q) (auto simp: number_pattern_def number_end_def ends_NotAhead split: if_splits)

lemma match_at_number_follow:
  assumes "match_at number_pattern b a = Some m"
  shows "\<not> (drop (length m) a \<noteq> [] \<and> cannot_follow_number (hd (drop (length m) a)))"
proof -
  have "literal_at int_part b a = Some m" using assms by (simp add: match_at_number)
  then have "ends number_pattern (b, a) = [(rev m @ b, drop (length m) a)]" by (rule literal_at_Some(2))
  then have "(rev m @ b, drop (length m) a) \<in> set (ends number_pattern (b, a))" by simp
  from ends_number_follow[OF this] show ?thesis by simp
qed

text \<open>
  C1 as stated has the key without the imaginary marker. The source uses
  \<^verbatim>\<open>match[0]\<close> as key: for \<^verbatim>\<open>2j\<close> the key is \<^verbatim>\<open>2j\<close>, and there is no key
  \<^verbatim>\<open>2\<close>.
\<close>

theorem marker_key_counterexample:
  "replace_numbers text_mp 10 ''2j'' module_init =
     (Inr ''NUMBERS['2j']'', \<lparr>NUMBERS = [(''2j'', ''2j'')], mpmathify_calls = [''2j'']\<rparr>)
   \<and> map_of (NUMBERS (snd (replace_numbers text_mp 10 ''2j'' module_init))) ''2'' = None"
  by code_simp

text \<open>
  C1, as the source has it. When the extraction succeeds, every match is replaced by
  the lookup expression of its whole text, the keys of the table are exactly the whole
  texts of the matches, each value is what \<^verbatim>\<open>mp.mpmathify\<close> returned for the whole
  text, and only those calls were made. A match never ends before a \<^verbatim>\<open>j\<close>: the
  marker is part of the match, of the key and of the text that is parsed.
\<close>

theorem literal_key_spec:
  assumes "replace_numbers env digits s module_init = (Inr out, g')"
  shows "out = concat (map (seg_sub lookup_expression) (finditer number_pattern s))
    \<and> set (map fst (NUMBERS g')) = set (hits (finditer number_pattern s))
    \<and> (\<forall>(key, v) \<in> set (NUMBERS g'). mpmathify_str env digits key = Inr v)
    \<and> mpmathify_calls g' = map fst (NUMBERS g')
    \<and> (match_at number_pattern b a = Some m \<longrightarrow>
         \<not> (drop (length m) a \<noteq> [] \<and> hd (drop (length m) a) = CHR ''j''))"
proof -
  let ?segs = "finditer number_pattern s"
  have sw: "sub_with (replace_number_with_mpf env digits) ?segs module_init = (Inr out, g')"
    using assms(1) by (simp add: replace_numbers_def)
  from sub_with_wf[OF sw wf_module_init]
  have wf: "wf_globals env digits g'" and keys: "set (map fst (NUMBERS g')) = set (hits ?segs)"
    by (simp_all add: module_init_def)
  have 2: "out = concat (map (seg_sub lookup_expression) ?segs)" using sw by (rule sub_with_out)
  have 3: "match_at number_pattern b a = Some m \<longrightarrow>
         \<not> (drop (length m) a \<noteq> [] \<and> hd (drop (length m) a) = CHR ''j'')"
    using match_at_number_follow[of b a m] number_chars(7) by auto
  show ?thesis using wf keys 2 3 unfolding wf_globals_def by simp
qed

theorem literal_key_spec_witness:
  "replace_numbers text_mp 10 ''3 + 2j'' module_init =
     (Inr ''NUMBERS['3'] + NUMBERS['2j']'',
      \<lparr>NUMBERS = [(''3'', ''3''), (''2j'', ''2j'')], mpmathify_calls = [''3'', ''2j'']\<rparr>)
   \<and> set (map fst [(''3'', ''3''), (''2j'', ''2j'')]) = set (hits (finditer number_pattern ''3 + 2j''))
   \<and> match_at number_pattern [] ''2j'' = Some ''2j''"
proof -
  have h: "replace_numbers text_mp 10 ''3 + 2j'' module_init =
     (Inr ''NUMBERS['3'] + NUMBERS['2j']'',
      \<lparr>NUMBERS = [(''3'', ''3''), (''2j'', ''2j'')], mpmathify_calls = [''3'', ''2j'']\<rparr>)"
    by code_simp
  have m: "match_at number_pattern [] ''2j'' = Some ''2j''" by code_simp
  from literal_key_spec[OF h] h m show ?thesis by simp
qed


section \<open>The removal of backslashes\<close>

lemma strip_filter: "strip_backslashes s = filter (\<lambda>c. c \<noteq> backslash) s"
  unfolding strip_backslashes_def by (induction s) simp_all

lemma finditer_escaped_x: "finditer number_pattern (backslash # ''x'') = [Gap backslash, Gap (CHR ''x'')]"
  by code_simp

lemma script_escaped_x:
  "script env \<lparr>expression = backslash # ''x'', DIGITS = d, ALL_DIGITS = False, DEBUG = False\<rparr> =
     (let ev = py_eval env d \<lparr>expression = backslash # ''x'', DIGITS = d, ALL_DIGITS = False, DEBUG = False\<rparr> ''x'' []
      in case outcome ev of
           Inl e \<Rightarrow> \<lparr>printed = map Written (written ev), raised = Some e,
                     extracted = module_init, final_table = table_after ev\<rparr>
         | Inr v \<Rightarrow> \<lparr>printed = map Written (written ev) @ fst (print_result env d (vars_after ev) v),
                     raised = snd (print_result env d (vars_after ev) v),
                     extracted = module_init, final_table = table_after ev\<rparr>)"
proof -
  have v: "validate (backslash # ''x'') = Inr ()" by code_simp
  have q: "qualify_names (backslash # ''x'') = backslash # ''x''" by code_simp
  have r: "replace_numbers env d (backslash # ''x'') module_init = (Inr (backslash # ''x''), module_init)"
    by (simp add: replace_numbers_def finditer_escaped_x)
  have s: "strip_backslashes (backslash # ''x'') = ''x''" by code_simp
  have n: "NUMBERS (module_init :: 'a globals) = []" by (simp add: module_init_def)
  show ?thesis
    by (simp add: script_def main_block_def v q r s n debug_print_def Let_def split: sum.splits prod.splits)
qed

text \<open>
  C6. The stripper returns its input without the backslashes and with every other
  character in place. For the input \<^verbatim>\<open>\x\<close> the script evaluates the expression
  \<^verbatim>\<open>x\<close>, with no prefix and no backslash, and an empty table; what the run prints,
  raises and leaves behind is what that evaluation and the lines that print the result
  give, and with both flags off these lines print the value with \<^verbatim>\<open>print\<close>.
\<close>

theorem strip_backslashes_spec:
  "strip_backslashes s = filter (\<lambda>c. c \<noteq> backslash) s
   \<and> script env \<lparr>expression = backslash # ''x'', DIGITS = d, ALL_DIGITS = False, DEBUG = False\<rparr> =
     (let ev = py_eval env d \<lparr>expression = backslash # ''x'', DIGITS = d, ALL_DIGITS = False, DEBUG = False\<rparr> ''x'' []
      in case outcome ev of
           Inl e \<Rightarrow> \<lparr>printed = map Written (written ev), raised = Some e,
                     extracted = module_init, final_table = table_after ev\<rparr>
         | Inr v \<Rightarrow> \<lparr>printed = map Written (written ev) @ fst (print_result env d (vars_after ev) v),
                     raised = snd (print_result env d (vars_after ev) v),
                     extracted = module_init, final_table = table_after ev\<rparr>)
   \<and> print_result env d \<lparr>expression = e, DIGITS = n, ALL_DIGITS = False, DEBUG = False\<rparr> v
       = ([Print_value v], None)"
  using strip_filter script_escaped_x by (simp add: print_result_def)


section \<open>The output of the main block\<close>

text \<open>
  The main block after a validation and an extraction that succeed: the evaluation is
  called once, on the stripped string and the table of the extraction.
\<close>

lemma main_block_evaluated:
  assumes "validate (expression a) = Inr ()"
    and "replace_numbers env (DIGITS a) (qualify_names (expression a)) g = (Inr e2, g2)"
  shows "main_block env a g =
    (let e3 = strip_backslashes e2;
         ev = py_eval env (DIGITS a) a e3 (NUMBERS g2);
         before = debug_print a [Debug_line ''Input:'' (expression a),
                   Debug_line ''Replaced names:'' (qualify_names (expression a)),
                   Debug_line ''Replaced numbers:'' e2, Debug_numbers (NUMBERS g2),
                   Debug_line ''Removed backslashes:'' e3] @ map Written (written ev)
     in case outcome ev of
          Inl e \<Rightarrow> \<lparr>printed = before, raised = Some e, extracted = g2, final_table = table_after ev\<rparr>
        | Inr v \<Rightarrow> \<lparr>printed = before @ fst (print_result env (DIGITS a) (vars_after ev) v),
                    raised = snd (print_result env (DIGITS a) (vars_after ev) v),
                    extracted = g2, final_table = table_after ev\<rparr>)"
  using assms
  by (simp add: main_block_def debug_print_def Let_def split: sum.splits prod.splits)

lemma extracted_main_block:
  "extracted (main_block env a g) =
     (case validate (expression a) of Inl e \<Rightarrow> g
      | Inr u \<Rightarrow> snd (replace_numbers env (DIGITS a) (qualify_names (expression a)) g))"
  by (simp add: main_block_def Let_def split: sum.splits prod.splits)

text \<open>
  C7 as stated has every run with the all-digits flag print its result through the
  all-digits path, and has that path never end the run. Neither holds.

  With the debug flag set as well, the all-digits branch is not reached: the result of
  \<^verbatim>\<open>[2]\<close>, a list and no scalar, is printed by \<^verbatim>\<open>repr\<close>, and \<^verbatim>\<open>mp.nprint\<close> is not
  called.

  The handler catches \<^verbatim>\<open>TypeError\<close> only. The accepted expression
  \<^verbatim>\<open>\chr(\106)+\chr(\106)\<close> goes through both rewriting stages unchanged and is
  evaluated as \<^verbatim>\<open>chr(106)+chr(106)\<close>, the string \<^verbatim>\<open>jj\<close>. With a library whose
  conversion of the result raises another exception than \<^verbatim>\<open>TypeError\<close> (in
  mpmath 1.3 the conversion of this string ends in an \<^verbatim>\<open>AttributeError\<close>), the run
  prints nothing and ends with that exception.
\<close>

theorem all_digits_counterexample:
  "printed (script (text_mp\<lparr>mpmathify_val := (\<lambda>digits v. Inl TypeError)\<rparr>)
      \<lparr>expression = ''[2]'', DIGITS = 10, ALL_DIGITS = True, DEBUG = True\<rparr>) =
     [Debug_line ''Input:'' ''[2]'', Debug_line ''Replaced names:'' ''[2]'',
      Debug_line ''Replaced numbers:'' ''[NUMBERS['2']]'', Debug_numbers [(''2'', ''2'')],
      Debug_line ''Removed backslashes:'' ''[NUMBERS['2']]'', Result_repr ''[NUMBERS['2']]'']
   \<and> printed (script (text_mp\<lparr>mpmathify_val := (\<lambda>digits v. Inl OtherException)\<rparr>)
      \<lparr>expression = backslash # ''chr('' @ backslash # ''106)+'' @ backslash # ''chr('' @ backslash # ''106)'',
       DIGITS = 10, ALL_DIGITS = True, DEBUG = False\<rparr>) = []
   \<and> raised (script (text_mp\<lparr>mpmathify_val := (\<lambda>digits v. Inl OtherException)\<rparr>)
      \<lparr>expression = backslash # ''chr('' @ backslash # ''106)+'' @ backslash # ''chr('' @ backslash # ''106)'',
       DIGITS = 10, ALL_DIGITS = True, DEBUG = False\<rparr>) = Some OtherException
   \<and> validate (backslash # ''chr('' @ backslash # ''106)+'' @ backslash # ''chr('' @ backslash # ''106)'') = Inr ()
   \<and> strip_backslashes (qualify_names
        (backslash # ''chr('' @ backslash # ''106)+'' @ backslash # ''chr('' @ backslash # ''106)''))
       = ''chr(106)+chr(106)''
   \<and> hits (finditer number_pattern (qualify_names
        (backslash # ''chr('' @ backslash # ''106)+'' @ backslash # ''chr('' @ backslash # ''106)''))) = []"
  by code_simp

text \<open>
  C7, as the source has it. Take a run whose validation, extraction and evaluation
  succeed, with the value \<open>v\<close>; \<open>before\<close> is what has been printed when the lines
  that print the result are reached, and the flags and \<open>DIGITS\<close> are read there, after
  the evaluation.
  \<^item> With the debug flag set, the run prints \<^verbatim>\<open>Result:\<close> and \<^verbatim>\<open>repr(v)\<close>, whatever
    the all-digits flag, and ends without an exception.
  \<^item> With the debug flag not set and the all-digits flag set, the run calls
    \<^verbatim>\<open>mp.mpmathify(v)\<close> at the working precision. When that returns \<open>x\<close>, the run
    calls \<^verbatim>\<open>mp.nprint(x, DIGITS, strip_zeros=False)\<close>; when it raises a
    \<^verbatim>\<open>TypeError\<close>, the run calls \<^verbatim>\<open>mp.nprint(v, DIGITS, strip_zeros=False)\<close> on the
    value itself; when it raises any other exception, nothing is printed for the result
    and the run ends with that exception.

  The statement is about the calls. Which text \<^verbatim>\<open>mp.nprint\<close> writes for a value and
  a digit count is the library's matter.
\<close>

theorem all_digits_output:
  assumes "validate (expression a) = Inr ()"
    and "replace_numbers env (DIGITS a) (qualify_names (expression a)) module_init = (Inr e2, g2)"
    and "outcome (py_eval env (DIGITS a) a (strip_backslashes e2) (NUMBERS g2)) = Inr v"
  shows "let ev = py_eval env (DIGITS a) a (strip_backslashes e2) (NUMBERS g2);
             a' = vars_after ev;
             before = debug_print a [Debug_line ''Input:'' (expression a),
                   Debug_line ''Replaced names:'' (qualify_names (expression a)),
                   Debug_line ''Replaced numbers:'' e2, Debug_numbers (NUMBERS g2),
                   Debug_line ''Removed backslashes:'' (strip_backslashes e2)] @ map Written (written ev)
         in (DEBUG a' \<longrightarrow>
               printed (script env a) = before @ [Result_repr v] \<and> raised (script env a) = None)
          \<and> (\<not> DEBUG a' \<and> ALL_DIGITS a' \<longrightarrow>
               (case mpmathify_val env (DIGITS a) v of
                  Inr x \<Rightarrow> printed (script env a) = before @ [Nprint x (DIGITS a')]
                            \<and> raised (script env a) = None
                | Inl TypeError \<Rightarrow> printed (script env a) = before @ [Nprint v (DIGITS a')]
                            \<and> raised (script env a) = None
                | Inl e \<Rightarrow> printed (script env a) = before \<and> raised (script env a) = Some e))"
  using main_block_evaluated[OF assms(1,2)] assms(3)
  by (simp add: script_def Let_def print_result_def split: sum.splits pyexc.splits)

theorem all_digits_output_witness:
  "script text_mp \<lparr>expression = ''2'', DIGITS = 10, ALL_DIGITS = True, DEBUG = False\<rparr> =
     \<lparr>printed = [Nprint ''NUMBERS['2']'' 10], raised = None,
      extracted = \<lparr>NUMBERS = [(''2'', ''2'')], mpmathify_calls = [''2'']\<rparr>,
      final_table = [(Str ''2'', ''2'')]\<rparr>
   \<and> printed (script (text_mp\<lparr>mpmathify_val := (\<lambda>digits v. Inl TypeError)\<rparr>)
       \<lparr>expression = ''[2]'', DIGITS = 10, ALL_DIGITS = True, DEBUG = False\<rparr>) =
     [Nprint ''[NUMBERS['2']]'' 10]"
proof -
  let ?a = "\<lparr>expression = ''2'', DIGITS = 10, ALL_DIGITS = True, DEBUG = False\<rparr>"
  let ?b = "\<lparr>expression = ''[2]'', DIGITS = 10, ALL_DIGITS = True, DEBUG = False\<rparr>"
  let ?env = "text_mp\<lparr>mpmathify_val := (\<lambda>digits v. Inl TypeError)\<rparr>"
  let ?g = "\<lparr>NUMBERS = [(''2'', ''2'')], mpmathify_calls = [''2'']\<rparr>"
  have 1: "validate (expression ?a) = Inr ()" by code_simp
  have 2: "replace_numbers text_mp (DIGITS ?a) (qualify_names (expression ?a)) module_init =
      (Inr ''NUMBERS['2']'', ?g)" by code_simp
  have 3: "outcome (py_eval text_mp (DIGITS ?a) ?a (strip_backslashes ''NUMBERS['2']'') (NUMBERS ?g))
      = Inr ''NUMBERS['2']''"
    by code_simp
  have 4: "validate (expression ?b) = Inr ()" by code_simp
  have 5: "replace_numbers ?env (DIGITS ?b) (qualify_names (expression ?b)) module_init =
      (Inr ''[NUMBERS['2']]'', ?g)" by code_simp
  have 6: "outcome (py_eval ?env (DIGITS ?b) ?b (strip_backslashes ''[NUMBERS['2']]'') (NUMBERS ?g))
      = Inr ''[NUMBERS['2']]''"
    by code_simp
  have x: "extracted (script text_mp ?a) = ?g" by code_simp
  have f: "final_table (script text_mp ?a) = [(Str ''2'', ''2'')]" by code_simp
  have p: "printed (script text_mp ?a) = [Nprint ''NUMBERS['2']'' 10] \<and> raised (script text_mp ?a) = None"
    using all_digits_output[OF 1 2 3] by (simp add: Let_def text_mp_def debug_print_def)
  have q: "printed (script ?env ?b) = [Nprint ''[NUMBERS['2']]'' 10]"
    using all_digits_output[OF 4 5 6] by (simp add: Let_def text_mp_def debug_print_def)
  show ?thesis using p q x f by (cases "script text_mp ?a") simp
qed

text \<open>
  C8 as stated has the same printed result with the debug flag on and off. With the
  flag on the script prints \<^verbatim>\<open>Result:\<close> and \<^verbatim>\<open>repr(value)\<close>; \<^verbatim>\<open>print(value)\<close> is
  not executed.
\<close>

theorem debug_output_counterexample:
  "printed (script text_mp \<lparr>expression = ''2 + 2'', DIGITS = 10, ALL_DIGITS = False, DEBUG = False\<rparr>) =
     [Print_value ''NUMBERS['2'] + NUMBERS['2']'']
   \<and> printed (script text_mp \<lparr>expression = ''2 + 2'', DIGITS = 10, ALL_DIGITS = False, DEBUG = True\<rparr>) =
     [Debug_line ''Input:'' ''2 + 2'', Debug_line ''Replaced names:'' ''2 + 2'',
      Debug_line ''Replaced numbers:'' ''NUMBERS['2'] + NUMBERS['2']'', Debug_numbers [(''2'', ''2'')],
      Debug_line ''Removed backslashes:'' ''NUMBERS['2'] + NUMBERS['2']'',
      Result_repr ''NUMBERS['2'] + NUMBERS['2']'']"
  by code_simp

text \<open>
  C8, as the source has it. Take arguments whose validation and extraction succeed;
  neither stage reads the debug flag. In the run with the flag on and in the run with
  the flag off the evaluation is called with the same stripped string and the same
  table, and the extraction leaves the same module-level state. What the evaluation
  returns is not assumed to be the same in the two runs: the evaluated code sees the
  command line.
  \<^item> The run with the flag on prints the input, the string after each rewriting stage
    and the table, then what the evaluated code writes, then the result.
  \<^item> The run with the flag off prints what the evaluated code writes, then the result.
  \<^item> The result is printed by the lines that print the result, from the variables as
    the evaluation leaves them: when these are as on the command line, a value \<open>w\<close> is
    printed as \<^verbatim>\<open>Result:\<close> with \<^verbatim>\<open>repr(w)\<close> with the flag on, whatever the
    all-digits flag, and by \<^verbatim>\<open>print(w)\<close> with both flags off.
\<close>

theorem debug_output:
  assumes "validate (expression a) = Inr ()"
    and "replace_numbers env (DIGITS a) (qualify_names (expression a)) module_init = (Inr e2, g2)"
  shows "let e3 = strip_backslashes e2;
             on = py_eval env (DIGITS a) (a\<lparr>DEBUG := True\<rparr>) e3 (NUMBERS g2);
             off = py_eval env (DIGITS a) (a\<lparr>DEBUG := False\<rparr>) e3 (NUMBERS g2)
         in printed (script env (a\<lparr>DEBUG := True\<rparr>)) =
              [Debug_line ''Input:'' (expression a),
               Debug_line ''Replaced names:'' (qualify_names (expression a)),
               Debug_line ''Replaced numbers:'' e2, Debug_numbers (NUMBERS g2),
               Debug_line ''Removed backslashes:'' e3]
              @ map Written (written on)
              @ (case outcome on of Inl e \<Rightarrow> []
                 | Inr v \<Rightarrow> fst (print_result env (DIGITS a) (vars_after on) v))
          \<and> printed (script env (a\<lparr>DEBUG := False\<rparr>)) =
              map Written (written off)
              @ (case outcome off of Inl e \<Rightarrow> []
                 | Inr v \<Rightarrow> fst (print_result env (DIGITS a) (vars_after off) v))
          \<and> extracted (script env (a\<lparr>DEBUG := True\<rparr>)) = g2
          \<and> extracted (script env (a\<lparr>DEBUG := False\<rparr>)) = g2
          \<and> print_result env (DIGITS a) (a\<lparr>DEBUG := True\<rparr>) w = ([Result_repr w], None)
          \<and> (\<not> ALL_DIGITS a \<longrightarrow>
               print_result env (DIGITS a) (a\<lparr>DEBUG := False\<rparr>) w = ([Print_value w], None))"
proof -
  have on: "validate (expression (a\<lparr>DEBUG := True\<rparr>)) = Inr ()"
    "replace_numbers env (DIGITS (a\<lparr>DEBUG := True\<rparr>)) (qualify_names (expression (a\<lparr>DEBUG := True\<rparr>))) module_init = (Inr e2, g2)"
    using assms by simp_all
  have off: "validate (expression (a\<lparr>DEBUG := False\<rparr>)) = Inr ()"
    "replace_numbers env (DIGITS (a\<lparr>DEBUG := False\<rparr>)) (qualify_names (expression (a\<lparr>DEBUG := False\<rparr>))) module_init = (Inr e2, g2)"
    using assms by simp_all
  show ?thesis
    using main_block_evaluated[OF on] main_block_evaluated[OF off]
    by (simp add: script_def Let_def debug_print_def print_result_def split: sum.splits)
qed

theorem debug_output_witness:
  "printed (script text_mp \<lparr>expression = ''pi'', DIGITS = 5, ALL_DIGITS = False, DEBUG = True\<rparr>) =
     [Debug_line ''Input:'' ''pi'', Debug_line ''Replaced names:'' ''mp.pi'',
      Debug_line ''Replaced numbers:'' ''mp.pi'', Debug_numbers [],
      Debug_line ''Removed backslashes:'' ''mp.pi'', Result_repr ''mp.pi'']
   \<and> printed (script text_mp \<lparr>expression = ''pi'', DIGITS = 5, ALL_DIGITS = False, DEBUG = False\<rparr>) =
     [Print_value ''mp.pi'']"
proof -
  let ?a = "\<lparr>expression = ''pi'', DIGITS = 5, ALL_DIGITS = False, DEBUG = False\<rparr>"
  have q: "qualify_names ''pi'' = ''mp.pi''" by code_simp
  have 1: "validate (expression ?a) = Inr ()" by code_simp
  have f: "finditer number_pattern ''mp.pi'' = map Gap ''mp.pi''" by code_simp
  have 2: "replace_numbers text_mp (DIGITS ?a) (qualify_names (expression ?a)) module_init =
      (Inr ''mp.pi'', module_init)"
    by (simp add: q replace_numbers_def f)
  have s: "strip_backslashes ''mp.pi'' = ''mp.pi''" by code_simp
  have n: "NUMBERS (module_init :: string globals) = []" by (simp add: module_init_def)
  from debug_output[OF 1 2] show ?thesis
    by (simp add: Let_def q s n text_mp_def print_result_def)
qed


section \<open>The table across runs\<close>

text \<open>A successful extraction adds the texts of its matches to the keys, and removes none.\<close>

lemma replace_number_keys_eq:
  "replace_number_with_mpf env digits m g = (Inr t, g1) \<Longrightarrow>
     set (map fst (NUMBERS g1)) = insert m (set (map fst (NUMBERS g)))"
  by (auto simp: replace_number_with_mpf_def Let_def split: if_splits sum.splits)

lemma sub_with_keys_eq:
  "sub_with (replace_number_with_mpf env digits) segs g = (Inr out, g') \<Longrightarrow>
     set (map fst (NUMBERS g')) = set (map fst (NUMBERS g)) \<union> set (hits segs)"
proof (induction segs arbitrary: g out g')
  case Nil
  then show ?case by simp
next
  case (Cons x segs)
  show ?case
  proof (cases x)
    case (Gap c)
    then show ?thesis using Cons by (auto split: prod.splits sum.splits)
  next
    case (Hit m)
    from Cons.prems Hit obtain t g1 out1 where
      1: "replace_number_with_mpf env digits m g = (Inr t, g1)" and
      2: "sub_with (replace_number_with_mpf env digits) segs g1 = (Inr out1, g')"
      by (auto split: prod.splits sum.splits)
    from replace_number_keys_eq[OF 1] Cons.IH[OF 2] Hit show ?thesis by auto
  qed
qed

text \<open>
  C10 as stated has the table empty at the start of every run of the pipeline, and
  holding nothing but the literals of the run's own expression. Neither holds.

  The table is the module-level dictionary \<open>NUMBERS\<close>, and the main block does not
  clear it. When the main block runs on \<^verbatim>\<open>2\<close> in the module state that a run on
  \<^verbatim>\<open>1.5\<close> has left, the table holds the keys \<^verbatim>\<open>1.5\<close> and \<^verbatim>\<open>2\<close>, where \<^verbatim>\<open>2\<close> is
  the one literal of the expression.

  The evaluated expression is handed the table itself. The accepted expression
  \<^verbatim>\<open>\NUMBERS.setdefault(\7, 5)\<close> has the one literal \<^verbatim>\<open>5\<close> and is evaluated as
  \<^verbatim>\<open>NUMBERS.setdefault(7, NUMBERS['5'])\<close>; the run ends without an exception, with a
  table that holds the key \<^verbatim>\<open>'5'\<close> and the integer key \<^verbatim>\<open>7\<close>.
\<close>

theorem table_counterexample:
  "map fst (NUMBERS (extracted (main_block text_mp
       \<lparr>expression = ''2'', DIGITS = 10, ALL_DIGITS = False, DEBUG = False\<rparr>
       (extracted (script text_mp \<lparr>expression = ''1.5'', DIGITS = 10, ALL_DIGITS = False, DEBUG = False\<rparr>)))))
     = [''1.5'', ''2'']
   \<and> hits (finditer number_pattern (qualify_names ''2'')) = [''2'']
   \<and> raised (script setdefault_mp
       \<lparr>expression = backslash # ''NUMBERS.setdefault('' @ backslash # ''7, 5)'',
        DIGITS = 10, ALL_DIGITS = False, DEBUG = False\<rparr>) = None
   \<and> map fst (final_table (script setdefault_mp
       \<lparr>expression = backslash # ''NUMBERS.setdefault('' @ backslash # ''7, 5)'',
        DIGITS = 10, ALL_DIGITS = False, DEBUG = False\<rparr>)) = [Str ''5'', Obj ''7'']
   \<and> hits (finditer number_pattern
        (qualify_names (backslash # ''NUMBERS.setdefault('' @ backslash # ''7, 5)''))) = [''5'']"
  by code_simp

text \<open>
  C10, as the source has it.
  \<^item> The table is a module-level dictionary, empty when the script starts.
  \<^item> An extraction that succeeds, from any module state, leaves as keys the keys it
    found and the literals of its own expression: it adds its literals and removes
    nothing, so the entries of an earlier run on the same module state stay.
  \<^item> In an invocation of the script the keys that the extraction has stored are among
    the literals of the expression, on every exit path.
  \<^item> When validation and extraction succeed in an invocation of the script, the keys of
    the table handed to the evaluation are exactly the literals of the expression, and
    the table at the end of the run is the one that the evaluated code leaves, which
    may hold more.
\<close>

theorem table_per_invocation:
  "NUMBERS (module_init :: 'v globals) = []
   \<and> (replace_numbers env digits s g = (Inr out, g') \<longrightarrow>
        set (map fst (NUMBERS g')) = set (map fst (NUMBERS g)) \<union> set (hits (finditer number_pattern s)))
   \<and> set (map fst (NUMBERS (extracted (script env a))))
        \<subseteq> set (hits (finditer number_pattern (qualify_names (expression a))))
   \<and> (validate (expression a) = Inr ()
        \<and> replace_numbers env (DIGITS a) (qualify_names (expression a)) module_init = (Inr e2, g2) \<longrightarrow>
          set (map fst (NUMBERS g2)) = set (hits (finditer number_pattern (qualify_names (expression a))))
        \<and> extracted (script env a) = g2
        \<and> final_table (script env a) =
            table_after (py_eval env (DIGITS a) a (strip_backslashes e2) (NUMBERS g2)))"
proof (intro conjI impI)
  show "NUMBERS (module_init :: 'v globals) = []" by (simp add: module_init_def)
  assume "replace_numbers env digits s g = (Inr out, g')"
  then have "sub_with (replace_number_with_mpf env digits) (finditer number_pattern s) g = (Inr out, g')"
    by (simp add: replace_numbers_def)
  from sub_with_keys_eq[OF this]
  show "set (map fst (NUMBERS g')) = set (map fst (NUMBERS g)) \<union> set (hits (finditer number_pattern s))" .
next
  let ?q = "qualify_names (expression a)"
  have sub: "set (map fst (NUMBERS (snd (replace_numbers env (DIGITS a) ?q module_init))))
      \<subseteq> set (hits (finditer number_pattern ?q))"
    using sub_with_keys_subset[of env "DIGITS a" "finditer number_pattern ?q" module_init]
    by (simp add: replace_numbers_def module_init_def)
  show "set (map fst (NUMBERS (extracted (script env a)))) \<subseteq> set (hits (finditer number_pattern ?q))"
    using sub by (cases "validate (expression a)") (simp_all add: script_def extracted_main_block module_init_def)
next
  assume h: "validate (expression a) = Inr ()
        \<and> replace_numbers env (DIGITS a) (qualify_names (expression a)) module_init = (Inr e2, g2)"
  then have v: "validate (expression a) = Inr ()"
    and r: "replace_numbers env (DIGITS a) (qualify_names (expression a)) module_init = (Inr e2, g2)"
    by simp_all
  from r have "sub_with (replace_number_with_mpf env (DIGITS a))
      (finditer number_pattern (qualify_names (expression a))) module_init = (Inr e2, g2)"
    by (simp add: replace_numbers_def)
  from sub_with_keys_eq[OF this]
  show "set (map fst (NUMBERS g2)) = set (hits (finditer number_pattern (qualify_names (expression a))))"
    by (simp add: module_init_def)
  show "extracted (script env a) = g2" using v r by (simp add: script_def extracted_main_block)
  show "final_table (script env a) =
            table_after (py_eval env (DIGITS a) a (strip_backslashes e2) (NUMBERS g2))"
    using main_block_evaluated[OF v r] by (simp add: script_def Let_def split: sum.splits)
qed

theorem table_per_invocation_witness:
  "validate ''1.5 + 1.5'' = Inr ()
   \<and> replace_numbers text_mp 10 (qualify_names ''1.5 + 1.5'') module_init =
       (Inr ''NUMBERS['1.5'] + NUMBERS['1.5']'', \<lparr>NUMBERS = [(''1.5'', ''1.5'')], mpmathify_calls = [''1.5'']\<rparr>)
   \<and> set (hits (finditer number_pattern (qualify_names ''1.5 + 1.5''))) = {''1.5''}
   \<and> final_table (script text_mp \<lparr>expression = ''1.5 + 1.5'', DIGITS = 10, ALL_DIGITS = False, DEBUG = False\<rparr>)
       = [(Str ''1.5'', ''1.5'')]
   \<and> replace_numbers text_mp 10 ''2'' \<lparr>NUMBERS = [(''1.5'', ''1.5'')], mpmathify_calls = [''1.5'']\<rparr> =
       (Inr ''NUMBERS['2']'',
        \<lparr>NUMBERS = [(''1.5'', ''1.5''), (''2'', ''2'')], mpmathify_calls = [''1.5'', ''2'']\<rparr>)
   \<and> {''1.5'', ''2''} = {''1.5''} \<union> set (hits (finditer number_pattern ''2''))"
proof -
  let ?a = "\<lparr>expression = ''1.5 + 1.5'', DIGITS = 10, ALL_DIGITS = False, DEBUG = False\<rparr>"
  let ?g = "\<lparr>NUMBERS = [(''1.5'', ''1.5'')], mpmathify_calls = [''1.5'']\<rparr>"
  let ?h = "\<lparr>NUMBERS = [(''1.5'', ''1.5''), (''2'', ''2'')], mpmathify_calls = [''1.5'', ''2'']\<rparr>"
  have 1: "validate (expression ?a) = Inr ()" by code_simp
  have 2: "replace_numbers text_mp (DIGITS ?a) (qualify_names (expression ?a)) module_init =
       (Inr ''NUMBERS['1.5'] + NUMBERS['1.5']'', ?g)" by code_simp
  have 5: "replace_numbers text_mp (DIGITS ?a) ''2'' ?g = (Inr ''NUMBERS['2']'', ?h)" by code_simp
  note t = table_per_invocation[of text_mp "DIGITS ?a" "''2''" ?g "''NUMBERS['2']''" ?h ?a
        "''NUMBERS['1.5'] + NUMBERS['1.5']''" ?g]
  have 3: "set (map fst (NUMBERS ?g)) = set (hits (finditer number_pattern (qualify_names (expression ?a))))
     \<and> final_table (script text_mp ?a) =
        table_after (py_eval text_mp (DIGITS ?a) ?a (strip_backslashes ''NUMBERS['1.5'] + NUMBERS['1.5']'') (NUMBERS ?g))"
    using t 1 2 by blast
  have 6: "set (map fst (NUMBERS ?h)) = set (map fst (NUMBERS ?g)) \<union> set (hits (finditer number_pattern ''2''))"
    using t 5 by blast
  have 4: "table_after (py_eval text_mp (DIGITS ?a) ?a (strip_backslashes ''NUMBERS['1.5'] + NUMBERS['1.5']'') (NUMBERS ?g))
      = [(Str ''1.5'', ''1.5'')]" by code_simp
  show ?thesis using 1 2 3 4 5 6 by simp
qed

end
